theory Spec2Isabelle
  imports Main "HOL-Library.Log_Nat"
begin

section \<open>Values of the host language\<close>

subsection \<open>Numbers\<close>

text \<open>
  A JavaScript Number is an IEEE 754 double. A finite double is kept as the rational it
  denotes; every operation that produces a number rounds its exact result with \<open>fl\<close>
  (round to nearest, ties to even, 53 bits of mantissa, exponents from -1074 to 1023).
  Negative zero is identified with zero: no operation of this program tells them apart.
\<close>

datatype jsnum = NaN | PInf | NInf | Fin rat

text \<open>The binary exponent of a positive rational: \<open>2^e \<le> q < 2^(e+1)\<close>.\<close>

definition ilog2 :: "rat \<Rightarrow> int" where
  "ilog2 q = (case quotient_of q of (a, b) \<Rightarrow>
     (let e0 = bitlen a - bitlen b
      in if 2 powi e0 \<le> q then e0 else e0 - 1))"

definition round_even :: "rat \<Rightarrow> int" where
  "round_even r = (let n = \<lfloor>r\<rfloor>; d = r - of_int n
     in if d < 1 / 2 then n else if 1 / 2 < d then n + 1
        else if even n then n else n + 1)"

definition fl :: "rat \<Rightarrow> jsnum" where
  "fl q = (if q = 0 then Fin 0 else
     (let a = \<bar>q\<bar>;
          e = max (ilog2 a) (- 1022);
          u = 2 powi (e - 52);
          r = of_int (round_even (a / u)) * u
      in if 2 ^ 1024 \<le> r then (if 0 < q then PInf else NInf)
         else Fin (if 0 < q then r else - r)))"

text \<open>Arithmetic of the language on numbers: \<open>*\<close>, \<open>+\<close>, \<open><\<close>, \<open>===\<close>.\<close>

fun num_mul :: "jsnum \<Rightarrow> jsnum \<Rightarrow> jsnum" where
  "num_mul (Fin a) (Fin b) = fl (a * b)"
| "num_mul NaN _ = NaN"
| "num_mul _ NaN = NaN"
| "num_mul (Fin a) PInf = (if a = 0 then NaN else if 0 < a then PInf else NInf)"
| "num_mul (Fin a) NInf = (if a = 0 then NaN else if 0 < a then NInf else PInf)"
| "num_mul PInf (Fin b) = (if b = 0 then NaN else if 0 < b then PInf else NInf)"
| "num_mul NInf (Fin b) = (if b = 0 then NaN else if 0 < b then NInf else PInf)"
| "num_mul PInf PInf = PInf"
| "num_mul PInf NInf = NInf"
| "num_mul NInf PInf = NInf"
| "num_mul NInf NInf = PInf"

fun num_add :: "jsnum \<Rightarrow> jsnum \<Rightarrow> jsnum" where
  "num_add (Fin a) (Fin b) = fl (a + b)"
| "num_add NaN _ = NaN"
| "num_add _ NaN = NaN"
| "num_add PInf NInf = NaN"
| "num_add NInf PInf = NaN"
| "num_add PInf _ = PInf"
| "num_add NInf _ = NInf"
| "num_add (Fin a) PInf = PInf"
| "num_add (Fin a) NInf = NInf"

fun num_lt :: "jsnum \<Rightarrow> jsnum \<Rightarrow> bool" where
  "num_lt NaN _ = False"
| "num_lt _ NaN = False"
| "num_lt (Fin a) (Fin b) = (a < b)"
| "num_lt PInf _ = False"
| "num_lt NInf NInf = False"
| "num_lt NInf _ = True"
| "num_lt (Fin a) PInf = True"
| "num_lt (Fin a) NInf = False"

definition num_strict_eq :: "jsnum \<Rightarrow> jsnum \<Rightarrow> bool" where
  "num_strict_eq a b = (a \<noteq> NaN \<and> a = b)"

text \<open>\<open>Number.isFinite\<close> on a number, and the truthiness of a number.\<close>

fun isFinite :: "jsnum \<Rightarrow> bool" where
  "isFinite (Fin _) = True"
| "isFinite _ = False"

fun num_truthy :: "jsnum \<Rightarrow> bool" where
  "num_truthy NaN = False"
| "num_truthy (Fin q) = (q \<noteq> 0)"
| "num_truthy _ = True"

text \<open>\<open>x | 0\<close>: ToInt32, truncation toward zero and wrap-around modulo \<open>2^32\<close>.\<close>

definition truncation :: "rat \<Rightarrow> int" where
  "truncation q = (if 0 \<le> q then \<lfloor>q\<rfloor> else - \<lfloor>- q\<rfloor>)"

fun ToInt32 :: "jsnum \<Rightarrow> int" where
  "ToInt32 (Fin q) = (let m = truncation q mod 2 ^ 32 in if 2 ^ 31 \<le> m then m - 2 ^ 32 else m)"
| "ToInt32 _ = 0"

text \<open>\<open>Math.round\<close> (ties toward positive infinity) and \<open>Math.max\<close> of two numbers.\<close>

fun Math_round :: "jsnum \<Rightarrow> jsnum" where
  "Math_round (Fin q) = Fin (of_int \<lfloor>q + 1 / 2\<rfloor>)"
| "Math_round x = x"

fun Math_max :: "jsnum \<Rightarrow> jsnum \<Rightarrow> jsnum" where
  "Math_max NaN _ = NaN"
| "Math_max _ NaN = NaN"
| "Math_max a b = (if num_lt a b then b else a)"

subsection \<open>Strings\<close>

text \<open>
  A string of the language is a sequence of UTF-16 code units, kept as natural numbers.
  \<open>js\<close> turns an ASCII literal of the theory into such a string.
\<close>

type_synonym jsstring = "nat list"

definition js :: "string \<Rightarrow> jsstring" where
  "js s = map of_char s"

definition is_digit :: "nat \<Rightarrow> bool" where
  "is_digit c = (48 \<le> c \<and> c \<le> 57)"

definition hex_val :: "nat \<Rightarrow> nat option" where
  "hex_val c = (if 48 \<le> c \<and> c \<le> 57 then Some (c - 48)
     else if 65 \<le> c \<and> c \<le> 70 then Some (c - 55)
     else if 97 \<le> c \<and> c \<le> 102 then Some (c - 87) else None)"

text \<open>
  White space and line terminators of the language (the characters that \<open>trim\<close>,
  \<open>parseInt\<close> and the string-to-number conversion skip): TAB, LF, VT, FF, CR, SP, NBSP,
  U+1680, U+2000 to U+200A, U+2028, U+2029, U+202F, U+205F, U+3000 and U+FEFF.
\<close>

definition is_space :: "nat \<Rightarrow> bool" where
  "is_space c = ((9 \<le> c \<and> c \<le> 13) \<or> c = 32 \<or> c = 160 \<or> c = 5760 \<or> (8192 \<le> c \<and> c \<le> 8202)
     \<or> c = 8232 \<or> c = 8233 \<or> c = 8239 \<or> c = 8287 \<or> c = 12288 \<or> c = 65279)"

definition trim :: "jsstring \<Rightarrow> jsstring" where
  "trim s = rev (dropWhile is_space (rev (dropWhile is_space s)))"

text \<open>The value of a run of decimal digits.\<close>

definition decimal :: "jsstring \<Rightarrow> int" where
  "decimal ds = foldl (\<lambda>v c. 10 * v + (int c - 48)) 0 ds"

text \<open>
  \<open>parseInt(s, 10)\<close>: leading white space, an optional sign, then the longest run of
  decimal digits; \<open>NaN\<close> when that run is empty. (With radix 10 no \<open>0x\<close> prefix is
  recognised. For more than 20 significant digits the standard lets an implementation
  approximate; the exact value is taken here.)
\<close>

definition parseInt10 :: "jsstring \<Rightarrow> jsnum" where
  "parseInt10 s =
     (let t = dropWhile is_space s;
          neg = (t \<noteq> [] \<and> hd t = 45);
          r = (if t \<noteq> [] \<and> (hd t = 45 \<or> hd t = 43) then tl t else t);
          ds = takeWhile is_digit r
      in if ds = [] then NaN
         else fl (of_int (if neg then - decimal ds else decimal ds)))"

text \<open>
  The value denoted by decimal digits \<open>ip\<close>, fraction digits \<open>fp\<close> and a decimal
  exponent, and the scanner of an exponent part (the text after \<open>e\<close> or \<open>E\<close>).
\<close>

definition decimal_value :: "jsstring \<Rightarrow> jsstring \<Rightarrow> int \<Rightarrow> rat" where
  "decimal_value ip fp ex =
     (let n = of_int (decimal (ip @ fp)); e = ex - int (length fp)
      in if 0 \<le> e then n * 10 ^ nat e else n / 10 ^ nat (- e))"

definition scan_exponent :: "jsstring \<Rightarrow> (int \<times> jsstring) option" where
  "scan_exponent s =
     (let neg = (s \<noteq> [] \<and> hd s = 45);
          r = (if s \<noteq> [] \<and> (hd s = 45 \<or> hd s = 43) then tl s else s);
          ds = takeWhile is_digit r
      in if ds = [] then None
         else Some (if neg then - decimal ds else decimal ds, dropWhile is_digit r))"

text \<open>
  The conversion of a string to a number (\<open>Number(s)\<close> on a string): white space is
  trimmed; the empty string is 0; otherwise the whole text must be a signed decimal
  literal with optional fraction and exponent, \<open>Infinity\<close>, or an unsigned literal in
  base 16, 8 or 2 with prefix \<open>0x\<close>, \<open>0o\<close>, \<open>0b\<close>; anything else is \<open>NaN\<close>.
\<close>

definition radix_value :: "nat \<Rightarrow> jsstring \<Rightarrow> jsnum" where
  "radix_value b ds =
     (if ds \<noteq> [] \<and> (\<forall>c \<in> set ds. case hex_val c of None \<Rightarrow> False | Some v \<Rightarrow> v < b)
      then fl (of_int (foldl (\<lambda>v c. int b * v + int (the (hex_val c))) 0 ds)) else NaN)"

definition unsigned_decimal :: "jsstring \<Rightarrow> rat option" where
  "unsigned_decimal u =
     (let ip = takeWhile is_digit u; r1 = dropWhile is_digit u;
          dot = (r1 \<noteq> [] \<and> hd r1 = 46);
          fp = (if dot then takeWhile is_digit (tl r1) else []);
          r2 = (if dot then dropWhile is_digit (tl r1) else r1)
      in if ip = [] \<and> fp = [] then None
         else if r2 = [] then Some (decimal_value ip fp 0)
         else if hd r2 = 101 \<or> hd r2 = 69 then
           (case scan_exponent (tl r2) of
              Some (ex, []) \<Rightarrow> Some (decimal_value ip fp ex)
            | _ \<Rightarrow> None)
         else None)"

definition StringToNumber :: "jsstring \<Rightarrow> jsnum" where
  "StringToNumber s =
     (let t = trim s in
      if t = [] then Fin 0
      else if hd t = 48 \<and> tl t \<noteq> [] \<and> (hd (tl t) = 120 \<or> hd (tl t) = 88) then radix_value 16 (tl (tl t))
      else if hd t = 48 \<and> tl t \<noteq> [] \<and> (hd (tl t) = 111 \<or> hd (tl t) = 79) then radix_value 8 (tl (tl t))
      else if hd t = 48 \<and> tl t \<noteq> [] \<and> (hd (tl t) = 98 \<or> hd (tl t) = 66) then radix_value 2 (tl (tl t))
      else
        (let neg = (hd t = 45); u = (if hd t = 45 \<or> hd t = 43 then tl t else t) in
         if u = js ''Infinity'' then (if neg then NInf else PInf)
         else (case unsigned_decimal u of
                 None \<Rightarrow> NaN
               | Some q \<Rightarrow> fl (if neg then - q else q))))"

subsection \<open>Values\<close>

text \<open>
  The values that \<open>JSON.parse\<close> builds and the program handles. An object keeps its own
  properties as an association list. Exceptions are values of type \<open>error\<close>; a
  computation that may throw returns \<open>error + 'a\<close>.
\<close>

datatype error = TypeError | SyntaxError | URIError | InvalidCharacterError | HierarchyRequestError

datatype jsval =
    Undefined | Null | Bool bool | Num jsnum | Str jsstring
  | Arr "jsval list" | Obj "(jsstring \<times> jsval) list"

text \<open>
  Reading a property \<open>v.k\<close>, for the names this program reads (\<open>v\<close>, \<open>masks\<close>,
  \<open>active\<close>, \<open>x\<close>, \<open>y\<close>, \<open>w\<close>, \<open>h\<close>): none of them is defined by a built-in
  prototype, so only own properties of objects answer; \<open>null\<close> and \<open>undefined\<close> throw.
\<close>

fun get :: "jsval \<Rightarrow> jsstring \<Rightarrow> error + jsval" where
  "get Undefined k = Inl TypeError"
| "get Null k = Inl TypeError"
| "get (Obj kvs) k = Inr (case map_of kvs k of Some v \<Rightarrow> v | None \<Rightarrow> Undefined)"
| "get _ k = Inr Undefined"

fun truthy :: "jsval \<Rightarrow> bool" where
  "truthy Undefined = False"
| "truthy Null = False"
| "truthy (Bool b) = b"
| "truthy (Num n) = num_truthy n"
| "truthy (Str s) = (s \<noteq> [])"
| "truthy _ = True"

fun typeof_object :: "jsval \<Rightarrow> bool" where
  "typeof_object Null = True"
| "typeof_object (Arr _) = True"
| "typeof_object (Obj _) = True"
| "typeof_object _ = False"

fun isArray :: "jsval \<Rightarrow> bool" where
  "isArray (Arr _) = True"
| "isArray _ = False"

text \<open>
  Conversion to a number. An object or array is first converted to a primitive, which
  fails with a TypeError when an object on the way has an own property \<open>toString\<close>
  (a parsed value is never callable, and the inherited \<open>valueOf\<close> returns the object).
  Otherwise an object prints as \<open>[object Object]\<close>, not a number, and an array prints as
  its elements joined by commas: the empty array as the empty string, a one-element
  array as its element (nothing for \<open>null\<close> and \<open>undefined\<close>, and a number prints to a
  text that reads back as the same number), a longer one as a text with a comma.
\<close>

fun unprintable :: "jsval \<Rightarrow> bool" where
  "unprintable (Obj kvs) = (map_of kvs (js ''toString'') \<noteq> None)"
| "unprintable (Arr xs) = list_ex unprintable xs"
| "unprintable _ = False"

fun array_number :: "jsval list \<Rightarrow> jsnum" where
  "array_number [] = Fin 0"
| "array_number [Undefined] = Fin 0"
| "array_number [Null] = Fin 0"
| "array_number [Bool b] = NaN"
| "array_number [Num n] = n"
| "array_number [Str s] = StringToNumber s"
| "array_number [Arr ys] = array_number ys"
| "array_number [Obj kvs] = NaN"
| "array_number (x # y # zs) = NaN"

fun ToNumber :: "jsval \<Rightarrow> error + jsnum" where
  "ToNumber Undefined = Inr NaN"
| "ToNumber Null = Inr (Fin 0)"
| "ToNumber (Bool b) = Inr (Fin (if b then 1 else 0))"
| "ToNumber (Num n) = Inr n"
| "ToNumber (Str s) = Inr (StringToNumber s)"
| "ToNumber (Arr xs) = (if unprintable (Arr xs) then Inl TypeError else Inr (array_number xs))"
| "ToNumber (Obj kvs) = (if unprintable (Obj kvs) then Inl TypeError else Inr NaN)"

section \<open>Functions of the platform\<close>

subsection \<open>\<open>atob\<close>: forgiving base64 decoding\<close>

text \<open>
  ASCII white space (TAB, LF, FF, CR, SP) is removed; if the length is then a multiple
  of four, one or two trailing \<open>=\<close> are removed; a length of 1 modulo 4 or a character
  outside the base64 alphabet raises InvalidCharacterError; a final group of two or three
  characters yields one or two bytes, its surplus bits dropped. The result is a string
  of code units below 256.
\<close>

definition is_ascii_ws :: "nat \<Rightarrow> bool" where
  "is_ascii_ws c = (c = 9 \<or> c = 10 \<or> c = 12 \<or> c = 13 \<or> c = 32)"

definition b64_val :: "nat \<Rightarrow> nat option" where
  "b64_val c = (if 65 \<le> c \<and> c \<le> 90 then Some (c - 65)
     else if 97 \<le> c \<and> c \<le> 122 then Some (c - 71)
     else if 48 \<le> c \<and> c \<le> 57 then Some (c + 4)
     else if c = 43 then Some 62
     else if c = 47 then Some 63 else None)"

definition strip_padding :: "jsstring \<Rightarrow> jsstring" where
  "strip_padding d = (case rev d of
       p # q # r \<Rightarrow> if p = 61 then (if q = 61 then rev r else rev (q # r)) else d
     | [p] \<Rightarrow> if p = 61 then [] else d
     | [] \<Rightarrow> d)"

fun b64_bytes :: "nat list \<Rightarrow> nat list" where
  "b64_bytes (a # b # c # d # r) =
     (let n = ((a * 64 + b) * 64 + c) * 64 + d
      in n div 65536 # (n div 256) mod 256 # n mod 256 # b64_bytes r)"
| "b64_bytes [a, b, c] = (let n = (a * 64 + b) * 64 + c in [n div 1024, (n div 4) mod 256])"
| "b64_bytes [a, b] = [(a * 64 + b) div 16]"
| "b64_bytes _ = []"

definition atob :: "jsstring \<Rightarrow> error + jsstring" where
  "atob s =
     (let d = filter (\<lambda>c. \<not> is_ascii_ws c) s;
          d' = (if length d mod 4 = 0 then strip_padding d else d)
      in if length d' mod 4 = 1 then Inl InvalidCharacterError
         else (case those (map b64_val d') of
                 None \<Rightarrow> Inl InvalidCharacterError
               | Some vs \<Rightarrow> Inr (b64_bytes vs)))"

subsection \<open>\<open>escape\<close> and \<open>decodeURIComponent\<close>\<close>

text \<open>
  \<open>escape\<close> keeps letters, digits and \<open>@*_+-./\<close>, writes any other code unit below 256
  as \<open>%XX\<close> and the rest as \<open>%uXXXX\<close> (upper-case hexadecimal).
\<close>

definition escape_keeps :: "nat \<Rightarrow> bool" where
  "escape_keeps c = ((65 \<le> c \<and> c \<le> 90) \<or> (97 \<le> c \<and> c \<le> 122) \<or> (48 \<le> c \<and> c \<le> 57)
     \<or> c = 64 \<or> c = 42 \<or> c = 95 \<or> c = 43 \<or> c = 45 \<or> c = 46 \<or> c = 47)"

definition hex_digit :: "nat \<Rightarrow> nat" where
  "hex_digit d = (if d < 10 then 48 + d else 55 + d)"

definition escape_unit :: "nat \<Rightarrow> jsstring" where
  "escape_unit c =
     (if escape_keeps c then [c]
      else if c < 256 then [37, hex_digit (c div 16), hex_digit (c mod 16)]
      else [37, 117, hex_digit (c div 4096 mod 16), hex_digit (c div 256 mod 16),
            hex_digit (c div 16 mod 16), hex_digit (c mod 16)])"

definition escape :: "jsstring \<Rightarrow> jsstring" where
  "escape s = concat (map escape_unit s)"

text \<open>
  \<open>decodeURIComponent\<close>: every \<open>%\<close> must be followed by two hexadecimal digits, giving
  an octet; octets must form well-formed UTF-8 (shortest form, no surrogate, at most
  U+10FFFF); a code point above U+FFFF becomes a surrogate pair. Any violation raises
  URIError.
\<close>

datatype uri_item = Lit nat | Oct nat

fun uri_items :: "jsstring \<Rightarrow> uri_item list option" where
  "uri_items [] = Some []"
| "uri_items (c # r) =
     (if c = 37 then
        (case r of
           h1 # h2 # r' \<Rightarrow>
             (case hex_val h1 of
                None \<Rightarrow> None
              | Some a \<Rightarrow>
                 (case hex_val h2 of
                    None \<Rightarrow> None
                  | Some b \<Rightarrow> map_option (Cons (Oct (16 * a + b))) (uri_items r')))
         | _ \<Rightarrow> None)
      else map_option (Cons (Lit c)) (uri_items r))"

definition is_cont :: "nat \<Rightarrow> bool" where
  "is_cont b = (128 \<le> b \<and> b < 192)"

definition utf16 :: "nat \<Rightarrow> jsstring" where
  "utf16 v = (if v < 65536 then [v]
     else [55296 + (v - 65536) div 1024, 56320 + (v - 65536) mod 1024])"

fun utf8_items :: "uri_item list \<Rightarrow> jsstring option" where
  "utf8_items [] = Some []"
| "utf8_items (Lit c # r) = map_option (Cons c) (utf8_items r)"
| "utf8_items (Oct b # r) =
     (if b < 128 then map_option (Cons b) (utf8_items r)
      else if 192 \<le> b \<and> b < 224 then
        (case r of
           Oct b1 # r1 \<Rightarrow>
             (let v = (b - 192) * 64 + (b1 - 128) in
              if is_cont b1 \<and> 128 \<le> v
              then map_option (append (utf16 v)) (utf8_items r1) else None)
         | _ \<Rightarrow> None)
      else if 224 \<le> b \<and> b < 240 then
        (case r of
           Oct b1 # Oct b2 # r2 \<Rightarrow>
             (let v = ((b - 224) * 64 + (b1 - 128)) * 64 + (b2 - 128) in
              if is_cont b1 \<and> is_cont b2 \<and> 2048 \<le> v \<and> \<not> (55296 \<le> v \<and> v < 57344)
              then map_option (append (utf16 v)) (utf8_items r2) else None)
         | _ \<Rightarrow> None)
      else if 240 \<le> b \<and> b < 248 then
        (case r of
           Oct b1 # Oct b2 # Oct b3 # r3 \<Rightarrow>
             (let v = (((b - 240) * 64 + (b1 - 128)) * 64 + (b2 - 128)) * 64 + (b3 - 128) in
              if is_cont b1 \<and> is_cont b2 \<and> is_cont b3 \<and> 65536 \<le> v \<and> v < 1114112
              then map_option (append (utf16 v)) (utf8_items r3) else None)
         | _ \<Rightarrow> None)
      else None)"

definition decodeURIComponent :: "jsstring \<Rightarrow> error + jsstring" where
  "decodeURIComponent s =
     (case uri_items s of
        None \<Rightarrow> Inl URIError
      | Some its \<Rightarrow> (case utf8_items its of None \<Rightarrow> Inl URIError | Some t \<Rightarrow> Inr t))"

subsection \<open>\<open>JSON.parse\<close>\<close>

text \<open>
  A recursive-descent reader of the JSON grammar. White space is SP, TAB, LF, CR.
  A string body ends at the closing quotation mark (34); a reverse solidus (92)
  introduces an escape; code units below 32 are not allowed. A repeated key replaces
  the earlier value. Each function returns the value read and the remaining text.
\<close>

definition is_json_ws :: "nat \<Rightarrow> bool" where
  "is_json_ws c = (c = 32 \<or> c = 9 \<or> c = 10 \<or> c = 13)"

definition skip_ws :: "jsstring \<Rightarrow> jsstring" where
  "skip_ws s = dropWhile is_json_ws s"

definition unescape :: "nat \<Rightarrow> nat option" where
  "unescape e = (if e = 34 \<or> e = 92 \<or> e = 47 then Some e
     else if e = 98 then Some 8 else if e = 102 then Some 12
     else if e = 110 then Some 10 else if e = 114 then Some 13
     else if e = 116 then Some 9 else None)"

definition hex4 :: "nat \<Rightarrow> nat \<Rightarrow> nat \<Rightarrow> nat \<Rightarrow> nat option" where
  "hex4 a b c d = (case those [hex_val a, hex_val b, hex_val c, hex_val d] of
       Some [p, q, r, s] \<Rightarrow> Some (((p * 16 + q) * 16 + r) * 16 + s)
     | _ \<Rightarrow> None)"

fun json_chars :: "jsstring \<Rightarrow> (jsstring \<times> jsstring) option" where
  "json_chars [] = None"
| "json_chars (c # r) =
     (if c = 34 then Some ([], r)
      else if c < 32 then None
      else if c = 92 then
        (case r of
           [] \<Rightarrow> None
         | e # r1 \<Rightarrow>
             if e = 117 then
               (case r1 of
                  h1 # h2 # h3 # h4 # r2 \<Rightarrow>
                    (case hex4 h1 h2 h3 h4 of
                       None \<Rightarrow> None
                     | Some u \<Rightarrow> map_option (\<lambda>(t, r'). (u # t, r')) (json_chars r2))
                | _ \<Rightarrow> None)
             else
               (case unescape e of
                  None \<Rightarrow> None
                | Some u \<Rightarrow> map_option (\<lambda>(t, r'). (u # t, r')) (json_chars r1)))
      else map_option (\<lambda>(t, r'). (c # t, r')) (json_chars r))"

definition json_number :: "jsstring \<Rightarrow> (jsnum \<times> jsstring) option" where
  "json_number s =
     (let neg = (s \<noteq> [] \<and> hd s = 45); s1 = (if neg then tl s else s) in
      if s1 = [] \<or> \<not> is_digit (hd s1) then None
      else
        (let ip = (if hd s1 = 48 then [48] else takeWhile is_digit s1);
             s2 = (if hd s1 = 48 then tl s1 else dropWhile is_digit s1)
         in case (if s2 \<noteq> [] \<and> hd s2 = 46
                  then (if takeWhile is_digit (tl s2) = [] then None
                        else Some (takeWhile is_digit (tl s2), dropWhile is_digit (tl s2)))
                  else Some ([], s2)) of
              None \<Rightarrow> None
            | Some (fp, s3) \<Rightarrow>
               (case (if s3 \<noteq> [] \<and> (hd s3 = 101 \<or> hd s3 = 69)
                      then scan_exponent (tl s3) else Some (0, s3)) of
                  None \<Rightarrow> None
                | Some (ex, s4) \<Rightarrow>
                    Some (fl (if neg then - decimal_value ip fp ex else decimal_value ip fp ex), s4))))"

definition json_literal :: "jsstring \<Rightarrow> jsval \<Rightarrow> jsstring \<Rightarrow> (jsval \<times> jsstring) option" where
  "json_literal w v s = (if take (length w) s = w then Some (v, drop (length w) s) else None)"

fun put :: "jsstring \<Rightarrow> jsval \<Rightarrow> (jsstring \<times> jsval) list \<Rightarrow> (jsstring \<times> jsval) list" where
  "put k v [] = [(k, v)]"
| "put k v ((k', v') # kvs) = (if k = k' then (k, v) # kvs else (k', v') # put k v kvs)"

text \<open>
  The tests \<open>length r < length s\<close> below always succeed (a value, a key and a
  punctuation mark each consume text, see \<open>json_value_shorter\<close>); they make the
  termination of the reader evident.
\<close>

function json_value :: "jsstring \<Rightarrow> (jsval \<times> jsstring) option"
  and json_elements :: "jsval list \<Rightarrow> jsstring \<Rightarrow> (jsval \<times> jsstring) option"
  and json_members :: "(jsstring \<times> jsval) list \<Rightarrow> jsstring \<Rightarrow> (jsval \<times> jsstring) option"
where
  "json_value s =
     (case skip_ws s of
        [] \<Rightarrow> None
      | c # r \<Rightarrow>
          if c = 123 then
            (case skip_ws r of
               [] \<Rightarrow> None
             | d # r' \<Rightarrow> if d = 125 then Some (Obj [], r') else json_members [] r)
          else if c = 91 then
            (case skip_ws r of
               [] \<Rightarrow> None
             | d # r' \<Rightarrow> if d = 93 then Some (Arr [], r') else json_elements [] r)
          else if c = 34 then map_option (\<lambda>(t, r'). (Str t, r')) (json_chars r)
          else if c = 116 then json_literal (js ''true'') (Bool True) (c # r)
          else if c = 102 then json_literal (js ''false'') (Bool False) (c # r)
          else if c = 110 then json_literal (js ''null'') Null (c # r)
          else if c = 45 \<or> is_digit c then map_option (\<lambda>(n, r'). (Num n, r')) (json_number (c # r))
          else None)"
| "json_elements acc s =
     (case json_value s of
        None \<Rightarrow> None
      | Some (v, r) \<Rightarrow>
          if length r < length s then
            (case skip_ws r of
               [] \<Rightarrow> None
             | c # r' \<Rightarrow>
                 if c = 44 then json_elements (acc @ [v]) r'
                 else if c = 93 then Some (Arr (acc @ [v]), r') else None)
          else None)"
| "json_members acc s =
     (case skip_ws s of
        [] \<Rightarrow> None
      | c # r \<Rightarrow>
          if c \<noteq> 34 then None
          else
            (case json_chars r of
               None \<Rightarrow> None
             | Some (k, r1) \<Rightarrow>
                 (case skip_ws r1 of
                    [] \<Rightarrow> None
                  | c1 # r2 \<Rightarrow>
                      if c1 \<noteq> 58 \<or> \<not> length r2 < length s then None
                      else
                        (case json_value r2 of
                           None \<Rightarrow> None
                         | Some (v, r3) \<Rightarrow>
                             if length r3 < length r2 then
                               (case skip_ws r3 of
                                  [] \<Rightarrow> None
                                | c3 # r4 \<Rightarrow>
                                    if c3 = 44 then json_members (put k v acc) r4
                                    else if c3 = 125 then Some (Obj (put k v acc), r4)
                                    else None)
                             else None))))"
  by pat_completeness auto
termination
  apply (relation "measure (\<lambda>x. case x of
      Inl s \<Rightarrow> 2 * length s
    | Inr (Inl (a, s)) \<Rightarrow> 2 * length s + 1
    | Inr (Inr (a, s)) \<Rightarrow> 2 * length s + 1)")
  apply simp_all
  subgoal for s c r
    using length_dropWhile_le[of is_json_ws s] by (simp add: skip_ws_def)
  subgoal for s c r
    using length_dropWhile_le[of is_json_ws s] by (simp add: skip_ws_def)
  subgoal for s p v r
    using length_dropWhile_le[of is_json_ws r] by (simp add: skip_ws_def)
  subgoal for s c r p k r1 r2 q v r3
    using length_dropWhile_le[of is_json_ws r3] by (simp add: skip_ws_def)
  done

text \<open>\<open>JSON.parse\<close>: one value, then nothing but white space; otherwise a SyntaxError.\<close>

definition JSON_parse :: "jsstring \<Rightarrow> error + jsval" where
  "JSON_parse s =
     (case json_value s of
        None \<Rightarrow> Inl SyntaxError
      | Some (v, r) \<Rightarrow> if skip_ws r = [] then Inr v else Inl SyntaxError)"

subsection \<open>The document\<close>

text \<open>
  The document is the tree of its elements. An element has an identity (what a
  variable of the program refers to), a local name, attributes, its text content and its
  child elements in order. Scripts refer to an element by identity; an identity that
  names no element of the tree stands for a detached element without attributes or
  children.
\<close>

datatype element =
  Element (ident: nat) (tag: jsstring) (attrs: "(jsstring \<times> jsstring) list")
          (textContent: jsstring) (kids: "element list")

fun flatten :: "element \<Rightarrow> element list" where
  "flatten (Element i t a x ks) = Element i t a x ks # concat (map flatten ks)"

definition descendants :: "element \<Rightarrow> element list" where
  "descendants e = concat (map flatten (kids e))"

definition lookup :: "nat \<Rightarrow> element \<Rightarrow> element option" where
  "lookup i d = find (\<lambda>e. ident e = i) (flatten d)"

definition node :: "element \<Rightarrow> nat \<Rightarrow> element" where
  "node d i = (case lookup i d of Some e \<Rightarrow> e | None \<Rightarrow> Element i [] [] [] [])"

text \<open>The path from the root of the tree down to an element; empty if it is not there.\<close>

fun path :: "nat \<Rightarrow> element \<Rightarrow> element list"
  and path_list :: "nat \<Rightarrow> element list \<Rightarrow> element list" where
  "path i (Element j t a x ks) =
     (if i = j then [Element j t a x ks]
      else (case path_list i ks of [] \<Rightarrow> [] | p # ps \<Rightarrow> Element j t a x ks # p # ps))"
| "path_list i [] = []"
| "path_list i (k # ks) = (case path i k of [] \<Rightarrow> path_list i ks | p # ps \<Rightarrow> p # ps)"

text \<open>\<open>getAttribute\<close> (\<open>null\<close> is \<open>None\<close>) and \<open>a || d\<close> for an attribute value \<open>a\<close>.\<close>

definition getAttribute :: "element \<Rightarrow> jsstring \<Rightarrow> jsstring option" where
  "getAttribute e name = map_of (attrs e) name"

definition or_default :: "jsstring option \<Rightarrow> jsstring \<Rightarrow> jsstring" where
  "or_default a d = (case a of None \<Rightarrow> d | Some s \<Rightarrow> if s = [] then d else s)"

text \<open>
  The selectors the program uses are compound selectors of an optional type, an
  optional class and an optional id: \<open>#aioe-root\<close>, \<open>script.aioe-internal\<close>, \<open>img\<close>,
  \<open>.aioe-wrap\<close>, \<open>canvas.aioe-cv\<close>. The classes of an element are the tokens of its
  \<open>class\<close> attribute, separated by ASCII white space.
\<close>

datatype selector =
  Selector (sel_tag: "jsstring option") (sel_class: "jsstring option") (sel_id: "jsstring option")

fun split_ws :: "jsstring \<Rightarrow> jsstring \<Rightarrow> jsstring list" where
  "split_ws cur [] = (if cur = [] then [] else [cur])"
| "split_ws cur (c # r) =
     (if is_ascii_ws c then (if cur = [] then split_ws [] r else cur # split_ws [] r)
      else split_ws (cur @ [c]) r)"

definition classList :: "element \<Rightarrow> jsstring list" where
  "classList e = split_ws [] (or_default (getAttribute e (js ''class'')) [])"

definition matches :: "selector \<Rightarrow> element \<Rightarrow> bool" where
  "matches s e =
     ((case sel_tag s of None \<Rightarrow> True | Some t \<Rightarrow> tag e = t) \<and>
      (case sel_class s of None \<Rightarrow> True | Some c \<Rightarrow> c \<in> set (classList e)) \<and>
      (case sel_id s of None \<Rightarrow> True | Some i \<Rightarrow> getAttribute e (js ''id'') = Some i))"

definition sel_root :: selector where
  "sel_root = Selector None None (Some (js ''aioe-root''))"

definition sel_internal :: selector where
  "sel_internal = Selector (Some (js ''script'')) (Some (js ''aioe-internal'')) None"

definition sel_img :: selector where
  "sel_img = Selector (Some (js ''img'')) None None"

definition sel_wrap :: selector where
  "sel_wrap = Selector None (Some (js ''aioe-wrap'')) None"

definition sel_cv :: selector where
  "sel_cv = Selector (Some (js ''canvas'')) (Some (js ''aioe-cv'')) None"

text \<open>
  \<open>e.querySelector(s)\<close>: the first descendant of \<open>e\<close> in tree order that matches;
  \<open>document.querySelectorAll(s)\<close>: all matching elements of the document in tree order;
  \<open>e.closest(s)\<close>: the nearest of \<open>e\<close> and its ancestors that matches;
  \<open>e.parentNode\<close>, where the parent of the root element is the document itself.
\<close>

definition querySelector :: "selector \<Rightarrow> element \<Rightarrow> element option" where
  "querySelector s e = find (matches s) (descendants e)"

definition querySelectorAll :: "selector \<Rightarrow> element \<Rightarrow> nat list" where
  "querySelectorAll s d = map ident (filter (matches s) (flatten d))"

definition closest :: "selector \<Rightarrow> nat \<Rightarrow> element \<Rightarrow> element option" where
  "closest s i d = find (matches s) (rev (path i d))"

datatype parent = NoParent | TheDocument | ParentElement nat

definition parentNode :: "nat \<Rightarrow> element \<Rightarrow> parent" where
  "parentNode i d = (case rev (path i d) of
       [] \<Rightarrow> NoParent
     | [e] \<Rightarrow> TheDocument
     | e # p # ps \<Rightarrow> ParentElement (ident p))"

text \<open>
  The two mutations of the tree. \<open>enclose i w\<close> is the effect of
  \<open>img.parentNode.insertBefore(wrap, img); wrap.appendChild(img)\<close> for a new element
  \<open>wrap\<close> with identity \<open>w\<close>: the wrapper is put before \<open>img\<close> among the children of the
  parent of \<open>img\<close>, then \<open>img\<close> is moved out of that list to become the only child of the
  wrapper. \<open>append_child p c\<close> is \<open>p.appendChild(c)\<close> for a new element \<open>c\<close>.
\<close>

definition new_wrapper :: "nat \<Rightarrow> element list \<Rightarrow> element" where
  "new_wrapper w ks = Element w (js ''div'') [(js ''class'', js ''aioe-wrap'')] [] ks"

definition new_canvas :: "nat \<Rightarrow> element" where
  "new_canvas c = Element c (js ''canvas'') [(js ''class'', js ''aioe-cv'')] [] []"

fun enclose :: "nat \<Rightarrow> nat \<Rightarrow> element \<Rightarrow> element" where
  "enclose i w (Element j t a x ks) =
     Element j t a x (map (\<lambda>k. if ident k = i then new_wrapper w [k] else enclose i w k) ks)"

fun append_child :: "nat \<Rightarrow> element \<Rightarrow> element \<Rightarrow> element" where
  "append_child p c (Element j t a x ks) =
     Element j t a x (map (append_child p c) ks @ (if j = p then [c] else []))"

text \<open>
  The path of an element after \<open>enclose\<close>: the ancestors as they are in the new tree,
  then the wrapper, then the element itself.
\<close>

definition wrapped :: "nat \<Rightarrow> nat \<Rightarrow> element list \<Rightarrow> element list" where
  "wrapped i w ps =
     (if ps = [] then []
      else map (enclose i w) (butlast ps) @ [new_wrapper w [last ps], last ps])"

subsection \<open>The page: layout, overlay surfaces, callbacks\<close>

text \<open>
  What the program reads from and writes to its environment. \<open>layout\<close> gives the
  rectangle \<open>getBoundingClientRect\<close> reports for an element (an element without a box
  reports 0 by 0); \<open>loaded\<close> lists the images whose \<open>complete\<close> flag is set.
  A canvas keeps the sizes assigned to it and the calls made on its 2D context since its
  bitmap was last reset (assigning \<open>width\<close> or \<open>height\<close> resets it). The text
  \<open>`${n}px`\<close> assigned to a style property is kept as \<open>Px n\<close>.
  Every callback the program registers is \<open>() => draw(side, img, masks, activeIndex,
  style)\<close>; it is kept as the record of these five arguments.
\<close>

record rect =
  width :: jsnum
  height :: jsnum

datatype css_length = Px jsnum

datatype canvas_call =
    SetTransform jsnum jsnum jsnum jsnum jsnum jsnum
  | ClearRect jsnum jsnum jsnum jsnum
  | FillStyle jsstring
  | FillRect jsnum jsnum jsnum jsnum
  | LineWidth jsnum
  | StrokeStyle jsstring
  | StrokeRect jsnum jsnum jsnum jsnum

record surface =
  style_width :: "css_length option"
  style_height :: "css_length option"
  buffer_width :: jsnum
  buffer_height :: jsnum
  calls :: "canvas_call list"

record style =
  fill_front :: jsstring
  fill_other :: jsstring
  stroke :: jsstring
  outline_px :: jsnum

record closure =
  side :: jsstring
  img :: nat
  masks :: "jsval list"
  activeIndex :: jsnum
  style :: style

record world =
  doc :: element
  fresh :: nat
  layout :: "(nat \<times> rect) list"
  devicePixelRatio :: jsnum
  loaded :: "nat list"
  hasResizeObserver :: bool
  surfaces :: "(nat \<times> surface) list"
  frames :: "closure list"
  load_listeners :: "(nat \<times> closure) list"
  resize_listeners :: "closure list"
  observers :: "(nat \<times> closure) list"

definition getBoundingClientRect :: "world \<Rightarrow> nat \<Rightarrow> rect" where
  "getBoundingClientRect w i =
     (case map_of (layout w) i of Some r \<Rightarrow> r | None \<Rightarrow> \<lparr>width = Fin 0, height = Fin 0\<rparr>)"

definition surface_of :: "world \<Rightarrow> nat \<Rightarrow> surface" where
  "surface_of w c =
     (case map_of (surfaces w) c of
        Some s \<Rightarrow> s
      | None \<Rightarrow> \<lparr>style_width = None, style_height = None,
                  buffer_width = Fin 300, buffer_height = Fin 150, calls = []\<rparr>)"

text \<open>
  The identity that \<open>createElement\<close> takes next is not in use. This holds of any page
  and is kept by every step of the program.
\<close>

definition fresh_unused :: "world \<Rightarrow> bool" where
  "fresh_unused w = (\<forall>e \<in> set (flatten (doc w)). ident e < fresh w)"

text \<open>
  The overlay surface of an image: the canvas that \<open>makeCanvas\<close> finds in the wrapper
  that \<open>ensureWrapper\<close> finds around the image.
\<close>

definition overlay_of :: "world \<Rightarrow> nat \<Rightarrow> surface option" where
  "overlay_of w i =
     (case closest sel_wrap i (doc w) of
        None \<Rightarrow> None
      | Some e \<Rightarrow>
          (case querySelector sel_cv (node (doc w) (ident e)) of
             None \<Rightarrow> None
           | Some cv \<Rightarrow> Some (surface_of w (ident cv))))"



text \<open>A number that is at least 1 (and so not \<open>NaN\<close>), and an integral number.\<close>

fun at_least_one :: "jsnum \<Rightarrow> bool" where
  "at_least_one (Fin q) = (1 \<le> q)"
| "at_least_one PInf = True"
| "at_least_one n = False"

fun integral :: "jsnum \<Rightarrow> bool" where
  "integral (Fin q) = (q = of_int \<lfloor>q\<rfloor>)"
| "integral NaN = False"
| "integral n = True"

section \<open>The program\<close>

subsection \<open>Payload decoder\<close>

text \<open>
  \<open>b64ToUtf8\<close> (lines 4 to 7). Its argument is an attribute value or the empty string,
  so \<open>b64 || ""\<close> is the argument itself.
\<close>

definition b64ToUtf8 :: "jsstring \<Rightarrow> jsstring" where
  "b64ToUtf8 b64 =
     (case (case atob b64 of Inl e \<Rightarrow> Inl e | Inr bytes \<Rightarrow> decodeURIComponent (escape bytes)) of
        Inr t \<Rightarrow> t
      | Inl e \<Rightarrow> (case atob b64 of Inr bytes \<Rightarrow> bytes | Inl e' \<Rightarrow> []))"

text \<open>\<open>parseMasksB64\<close> (lines 29 to 32).\<close>

definition parseMasksB64 :: "jsstring \<Rightarrow> jsval" where
  "parseMasksB64 b64 =
     (case JSON_parse (b64ToUtf8 b64) of
        Inr v \<Rightarrow> v
      | Inl e \<Rightarrow> Obj [(js ''v'', Num (Fin 1)), (js ''masks'', Arr [])])"

text \<open>
  \<open>aioeParseInternalFromDom\<close> (lines 9 to 27): the body of the \<open>try\<close> block, where
  \<open>Inr None\<close> is \<open>return null\<close>, and the function itself, whose \<open>catch\<close> turns
  every exception into \<open>null\<close>.
\<close>

record internal =
  internal_masks :: jsval
  internal_active :: jsnum

definition and_then :: "error + 'a \<Rightarrow> ('a \<Rightarrow> error + 'b) \<Rightarrow> error + 'b" where
  "and_then m f = (case m of Inl e \<Rightarrow> Inl e | Inr x \<Rightarrow> f x)"

definition aioeParseInternal_try :: "element \<Rightarrow> error + internal option" where
  "aioeParseInternal_try rt =
     (case querySelector sel_internal rt of
        None \<Rightarrow> Inr None
      | Some el \<Rightarrow>
          (let txt = trim (textContent el) in
           if txt = [] then Inr None
           else
             and_then (JSON_parse txt) (\<lambda>obj.
               if \<not> truthy obj \<or> \<not> typeof_object obj then Inr None
               else
                 and_then (and_then (get obj (js ''v'')) ToNumber) (\<lambda>v.
                   if ToInt32 v < 1 then Inr None
                   else
                     and_then (get obj (js ''masks'')) (\<lambda>m.
                       and_then (and_then (get obj (js ''active'')) ToNumber) (\<lambda>a.
                         if \<not> isArray m then Inr None
                         else Inr (Some \<lparr>internal_masks = m,
                                          internal_active = (if isFinite a then a else Fin 0)\<rparr>)))))))"

definition aioeParseInternalFromDom :: "element \<Rightarrow> internal option" where
  "aioeParseInternalFromDom rt =
     (case aioeParseInternal_try rt of Inl e \<Rightarrow> None | Inr r \<Rightarrow> r)"

subsection \<open>DOM scaffolder\<close>

text \<open>
  \<open>ensureWrapper\<close> (lines 34 to 42). \<open>createElement\<close> takes the next unused identity.
  Without a parent node \<open>img.parentNode.insertBefore\<close> is a TypeError; the document
  itself refuses a second element child with a HierarchyRequestError.
\<close>

definition ensureWrapper :: "nat \<Rightarrow> world \<Rightarrow> (error + nat) \<times> world" where
  "ensureWrapper i w =
     (case closest sel_wrap i (doc w) of
        Some e \<Rightarrow> (Inr (ident e), w)
      | None \<Rightarrow>
          (let wrap = fresh w; w1 = w\<lparr>fresh := Suc (fresh w)\<rparr>
           in case parentNode i (doc w) of
                NoParent \<Rightarrow> (Inl TypeError, w1)
              | TheDocument \<Rightarrow> (Inl HierarchyRequestError, w1)
              | ParentElement p \<Rightarrow> (Inr wrap, w1\<lparr>doc := enclose i wrap (doc w)\<rparr>)))"

text \<open>\<open>makeCanvas\<close> (lines 44 to 51).\<close>

definition makeCanvas :: "nat \<Rightarrow> world \<Rightarrow> nat \<times> world" where
  "makeCanvas wrap w =
     (case querySelector sel_cv (node (doc w) wrap) of
        Some cv \<Rightarrow> (ident cv, w)
      | None \<Rightarrow>
          (fresh w, w\<lparr>fresh := Suc (fresh w),
                       doc := append_child wrap (new_canvas (fresh w)) (doc w)\<rparr>))"

subsection \<open>Overlay renderer\<close>

text \<open>
  The body of the \<open>forEach\<close> callback of \<open>draw\<close> (lines 78 to 97) for the mask \<open>m\<close> at
  index \<open>idx\<close>: the rectangle in CSS pixels (lines 79 to 82: reading a field of
  \<open>null\<close> or \<open>undefined\<close> throws, and so can the conversion of a field to a
  number), then the context calls (lines 84 to 96). \<open>paint\<close> holds the four resolved
  style values of lines 73 to 76.
\<close>

record paint =
  p_stroke :: jsstring
  p_fillFront :: jsstring
  p_fillOther :: jsstring
  p_lw :: jsnum

definition scaled :: "jsval \<Rightarrow> jsstring \<Rightarrow> jsnum \<Rightarrow> error + jsnum" where
  "scaled m k len = and_then (and_then (get m k) ToNumber) (\<lambda>v. Inr (num_mul v len))"

definition geometry :: "rect \<Rightarrow> jsval \<Rightarrow> error + (jsnum \<times> jsnum \<times> jsnum \<times> jsnum)" where
  "geometry r m =
     and_then (scaled m (js ''x'') (width r)) (\<lambda>x.
     and_then (scaled m (js ''y'') (height r)) (\<lambda>y.
     and_then (scaled m (js ''w'') (width r)) (\<lambda>w.
     and_then (scaled m (js ''h'') (height r)) (\<lambda>h. Inr (x, y, w, h)))))"

definition mask_calls ::
  "jsstring \<Rightarrow> jsnum \<Rightarrow> paint \<Rightarrow> nat \<Rightarrow> jsnum \<times> jsnum \<times> jsnum \<times> jsnum \<Rightarrow> canvas_call list" where
  "mask_calls sd act p idx g =
     (case g of (x, y, w, h) \<Rightarrow>
        (if sd = js ''front''
         then [FillStyle (if num_strict_eq (Fin (of_nat idx)) act
                          then p_fillFront p else p_fillOther p),
               FillRect x y w h]
         else if \<not> num_strict_eq (Fin (of_nat idx)) act
              then [FillStyle (p_fillOther p), FillRect x y w h]
              else [])
        @ [LineWidth (p_lw p), StrokeStyle (p_stroke p),
           StrokeRect (num_add x (Fin (1 / 2))) (num_add y (Fin (1 / 2))) w h])"

definition paint_mask ::
  "jsstring \<Rightarrow> jsnum \<Rightarrow> paint \<Rightarrow> rect \<Rightarrow> nat \<Rightarrow> jsval \<Rightarrow> error + canvas_call list" where
  "paint_mask sd act p r idx m =
     and_then (geometry r m) (\<lambda>g. Inr (mask_calls sd act p idx g))"

text \<open>
  \<open>masks.forEach\<close>: the masks in order, from index \<open>idx\<close>; an exception ends the loop and
  leaves the calls made so far.
\<close>

fun forEach_mask ::
  "jsstring \<Rightarrow> jsnum \<Rightarrow> paint \<Rightarrow> rect \<Rightarrow> nat \<Rightarrow> jsval list \<Rightarrow> canvas_call list
     \<Rightarrow> (error + unit) \<times> canvas_call list" where
  "forEach_mask sd act p r idx [] acc = (Inr (), acc)"
| "forEach_mask sd act p r idx (m # ms) acc =
     (case paint_mask sd act p r idx m of
        Inl e \<Rightarrow> (Inl e, acc)
      | Inr cs \<Rightarrow> forEach_mask sd act p r (Suc idx) ms (acc @ cs))"

text \<open>
  \<open>draw\<close> (lines 53 to 98). \<open>getBoundingClientRect\<close> always returns an object, so
  \<open>!r\<close> is false. The context of the canvas is taken to be available.
\<close>

definition resolve_paint :: "style \<Rightarrow> paint" where
  "resolve_paint st =
     \<lparr>p_stroke = (if stroke st \<noteq> [] then stroke st else js ''rgba(0,0,0,0.65)''),
      p_fillFront = (if fill_front st \<noteq> [] then fill_front st else js ''rgba(40,40,40,0.85)''),
      p_fillOther = (if fill_other st \<noteq> [] then fill_other st else js ''rgba(255,215,0,0.35)''),
      p_lw = (if num_truthy (outline_px st) then outline_px st else Fin 2)\<rparr>"

definition set_surface :: "nat \<Rightarrow> surface \<Rightarrow> world \<Rightarrow> world" where
  "set_surface c s w = w\<lparr>surfaces := (c, s) # filter (\<lambda>(c', s'). c' \<noteq> c) (surfaces w)\<rparr>"

definition draw :: "closure \<Rightarrow> world \<Rightarrow> (error + unit) \<times> world" where
  "draw c w =
     (case ensureWrapper (img c) w of
        (Inl e, w1) \<Rightarrow> (Inl e, w1)
      | (Inr wrap, w1) \<Rightarrow>
          (case makeCanvas wrap w1 of
             (cv, w2) \<Rightarrow>
               (let r = getBoundingClientRect w2 (img c) in
                if num_lt (width r) (Fin 2) \<or> num_lt (height r) (Fin 2)
                then (Inr (), w2\<lparr>frames := frames w2 @ [c]\<rparr>)
                else
                  (let dpr = (if num_truthy (devicePixelRatio w2)
                              then devicePixelRatio w2 else Fin 1);
                       s = (surface_of w2 cv)
                             \<lparr>style_width := Some (Px (width r)),
                              style_height := Some (Px (height r)),
                              buffer_width := Math_max (Fin 1) (Math_round (num_mul (width r) dpr)),
                              buffer_height := Math_max (Fin 1) (Math_round (num_mul (height r) dpr)),
                              calls := [SetTransform dpr (Fin 0) (Fin 0) dpr (Fin 0) (Fin 0),
                                        ClearRect (Fin 0) (Fin 0) (width r) (height r)]\<rparr>
                   in case forEach_mask (side c) (activeIndex c) (resolve_paint (style c)) r 0
                             (masks c) (calls s) of
                        (res, cs) \<Rightarrow> (res, set_surface cv (s\<lparr>calls := cs\<rparr>) w2)))))"

subsection \<open>Instance controller and page bootstrapper\<close>

text \<open>
  The payload resolution of \<open>initOne\<close> (lines 104 to 117): the structured source if it
  is accepted, the legacy attributes otherwise. It yields \<open>activeIndex\<close> and \<open>masks\<close>.
\<close>

definition array_or_empty :: "jsval \<Rightarrow> jsval list" where
  "array_or_empty v = (case v of Arr xs \<Rightarrow> xs | _ \<Rightarrow> [])"

definition legacy_payload :: "element \<Rightarrow> error + (jsnum \<times> jsval list)" where
  "legacy_payload rt =
     (let n = parseInt10 (or_default (getAttribute rt (js ''data-active'')) (js ''0''));
          activeIndex = (if num_truthy n then n else Fin 0);
          masksB64 = or_default (getAttribute rt (js ''data-masks-b64'')) [];
          parsed = parseMasksB64 masksB64
      in and_then (get parsed (js ''masks'')) (\<lambda>m. Inr (activeIndex, array_or_empty m)))"

definition resolve_payload :: "element \<Rightarrow> error + (jsnum \<times> jsval list)" where
  "resolve_payload rt =
     (case aioeParseInternalFromDom rt of
        Some internal \<Rightarrow>
          Inr (Fin (of_int (ToInt32 (internal_active internal))),
               array_or_empty (internal_masks internal))
      | None \<Rightarrow> legacy_payload rt)"

text \<open>The style object of \<open>initOne\<close> (lines 119 to 124).\<close>

definition read_style :: "element \<Rightarrow> style" where
  "read_style rt =
     \<lparr>fill_front = or_default (getAttribute rt (js ''data-fill-front'')) [],
      fill_other = or_default (getAttribute rt (js ''data-fill-other'')) [],
      stroke = or_default (getAttribute rt (js ''data-stroke'')) [],
      outline_px =
        (let n = parseInt10 (or_default (getAttribute rt (js ''data-outline-px'')) (js ''2''))
         in if num_truthy n then n else Fin 2)\<rparr>"

text \<open>\<open>initOne\<close> (lines 100 to 140).\<close>

definition initOne :: "nat \<Rightarrow> world \<Rightarrow> (error + unit) \<times> world" where
  "initOne root_id w =
     (let rt = node (doc w) root_id;
          sd = or_default (getAttribute rt (js ''data-side'')) (js ''front'')
      in case resolve_payload rt of
           Inl e \<Rightarrow> (Inl e, w)
         | Inr (act, ms) \<Rightarrow>
             (let st = read_style rt in
              case querySelector sel_img rt of
                None \<Rightarrow> (Inr (), w)
              | Some im \<Rightarrow>
                  (let rerender = \<lparr>side = sd, img = ident im, masks = ms,
                                   activeIndex = act, style = st\<rparr>
                   in case (if ident im \<in> set (loaded w) then draw rerender w
                            else (Inr (), w\<lparr>load_listeners :=
                                               load_listeners w @ [(ident im, rerender)]\<rparr>)) of
                        (Inl e, w1) \<Rightarrow> (Inl e, w1)
                      | (Inr u, w1) \<Rightarrow>
                          (Inr (),
                           w1\<lparr>resize_listeners := resize_listeners w1 @ [rerender],
                              observers := (if hasResizeObserver w1
                                            then observers w1 @ [(ident im, rerender)]
                                            else observers w1),
                              frames := frames w1 @ [rerender]\<rparr>))))"

text \<open>\<open>init\<close> (lines 142 to 145): \<open>roots.forEach(initOne)\<close>; an exception ends the loop.\<close>

fun forEach_root :: "nat list \<Rightarrow> world \<Rightarrow> (error + unit) \<times> world" where
  "forEach_root [] w = (Inr (), w)"
| "forEach_root (r # rs) w =
     (case initOne r w of
        (Inl e, w1) \<Rightarrow> (Inl e, w1)
      | (Inr u, w1) \<Rightarrow> forEach_root rs w1)"

definition init :: "world \<Rightarrow> (error + unit) \<times> world" where
  "init w = forEach_root (querySelectorAll sel_root (doc w)) w"

subsection \<open>Sample pages\<close>

text \<open>Concrete pages, styles and callbacks on which the properties below are exercised.\<close>

definition blank_page :: "element \<Rightarrow> nat \<Rightarrow> world" where
  "blank_page d n = \<lparr>doc = d, fresh = n, layout = [], devicePixelRatio = Fin 1, loaded = [],
     hasResizeObserver = False, surfaces = [], frames = [], load_listeners = [],
     resize_listeners = [], observers = []\<rparr>"

definition one_root :: element where
  "one_root = Element 0 (js ''div'') [(js ''id'', js ''aioe-root'')] []
     [Element 1 (js ''img'') [] [] []]"

definition plain_style :: style where
  "plain_style = \<lparr>fill_front = [], fill_other = [], stroke = [], outline_px = Fin 2\<rparr>"

definition front_closure :: "nat \<Rightarrow> jsval list \<Rightarrow> jsnum \<Rightarrow> closure" where
  "front_closure i ms a =
     \<lparr>side = js ''front'', img = i, masks = ms, activeIndex = a, style = plain_style\<rparr>"

definition laid_out :: "jsnum \<Rightarrow> jsnum \<Rightarrow> jsnum \<Rightarrow> world" where
  "laid_out a b d = (blank_page one_root 2)
     \<lparr>layout := [(1, \<lparr>width = a, height = b\<rparr>)], devicePixelRatio := d\<rparr>"

definition unit_mask :: jsval where
  "unit_mask = Obj [(js ''x'', Num (Fin 0)), (js ''y'', Num (Fin 0)),
                    (js ''w'', Num (Fin 1)), (js ''h'', Num (Fin 1))]"

text \<open>
  Pages that carry a scaffold before the program runs: a wrapper that already holds two
  overlay canvases, an image inside two nested wrappers, and the page that one call of
  \<open>draw\<close> leaves behind on \<open>one_root\<close>.
\<close>

definition two_cv :: element where
  "two_cv = Element 0 (js ''div'') [(js ''id'', js ''aioe-root'')] []
     [Element 1 (js ''div'') [(js ''class'', js ''aioe-wrap'')] []
        [Element 2 (js ''img'') [] [] [],
         Element 3 (js ''canvas'') [(js ''class'', js ''aioe-cv'')] [] [],
         Element 4 (js ''canvas'') [(js ''class'', js ''aioe-cv'')] [] []]]"

definition two_wrap :: element where
  "two_wrap = Element 0 (js ''div'') [(js ''id'', js ''aioe-root'')] []
     [Element 1 (js ''div'') [(js ''class'', js ''aioe-wrap'')] []
        [Element 2 (js ''div'') [(js ''class'', js ''aioe-wrap'')] []
           [Element 3 (js ''img'') [] [] []]]]"

definition scaffolded :: element where
  "scaffolded = Element 0 (js ''div'') [(js ''id'', js ''aioe-root'')] []
     [Element 2 (js ''div'') [(js ''class'', js ''aioe-wrap'')] []
        [Element 1 (js ''img'') [] [] [],
         Element 3 (js ''canvas'') [(js ''class'', js ''aioe-cv'')] [] []]]"

text \<open>
  Calls of \<open>draw\<close> one after the other, as the load, resize and animation-frame
  callbacks make them; a call that throws leaves the page to the next one.
\<close>

fun draws :: "closure list \<Rightarrow> world \<Rightarrow> world" where
  "draws [] w = w"
| "draws (c # cs) w = draws cs (snd (draw c w))"


definition inner_mask :: jsval where
  "inner_mask = Obj [(js ''x'', Num (Fin (1 / 2))), (js ''y'', Num (Fin (1 / 4))),
                     (js ''w'', Num (Fin (1 / 4))), (js ''h'', Num (Fin (1 / 2)))]"

text \<open>A root that carries only the attribute \<open>data-outline-px\<close>.\<close>

definition styled_root :: "jsstring \<Rightarrow> element" where
  "styled_root v = Element 0 (js ''div'') [(js ''data-outline-px'', v)] [] []"

text \<open>
  Roots with a structured payload script and legacy attributes, roots with legacy
  attributes only, and payload texts: accepted ones, rejected ones, and ones whose
  version number leaves the 32-bit range.
\<close>

definition structured_root :: "jsstring \<Rightarrow> (jsstring \<times> jsstring) list \<Rightarrow> element" where
  "structured_root txt legacy =
     Element 0 (js ''div'') ((js ''id'', js ''aioe-root'') # legacy) []
       [Element 1 (js ''script'') [(js ''class'', js ''aioe-internal'')] txt [],
        Element 2 (js ''img'') [] [] []]"

definition payload_v1 :: jsstring where
  \<open>payload_v1 = js '' {"v":1,"masks":[{"x":0.5,"y":0.25,"w":0.25,"h":0.5},{"x":0,"y":0,"w":1,"h":1}],"active":1} ''\<close>

definition payload_plain :: jsstring where
  \<open>payload_plain = js ''{"v":2.5,"masks":[]}''\<close>

definition payload_v0 :: jsstring where
  \<open>payload_v0 = js ''{"v":0,"masks":[]}''\<close>

definition payload_no_masks :: jsstring where
  \<open>payload_no_masks = js ''{"v":1}''\<close>

definition payload_big_version :: jsstring where
  \<open>payload_big_version = js ''{"v":4294967296,"masks":[{"x":0,"y":0,"w":1,"h":1}]}''\<close>

definition payload_active_object :: jsstring where
  \<open>payload_active_object = js ''{"v":1,"masks":[],"active":{"toString":1}}''\<close>

definition payload_negative_version :: jsstring where
  \<open>payload_negative_version = js ''{"v":-4294967295,"masks":[]}''\<close>

definition legacy_attrs :: "(jsstring \<times> jsstring) list" where
  "legacy_attrs = [(js ''data-active'', js ''1''),
     (js ''data-masks-b64'', js ''eyJ2IjoxLCJtYXNrcyI6W3sieCI6MCwieSI6MCwidyI6MSwiaCI6MX1dfQ=='')]"

definition legacy_root :: "(jsstring \<times> jsstring) list \<Rightarrow> element" where
  "legacy_root legacy =
     Element 0 (js ''div'') ((js ''id'', js ''aioe-root'') # legacy) []
       [Element 1 (js ''img'') [] [] []]"

subsection \<open>The legacy encoder\<close>

text \<open>
  Modelled from the spec: the encoder of the legacy attribute, which is not part of
  this program. The spec names it as encoding a text as UTF-8 and then as base64; this
  is the standard alphabet with \<open>=\<close> padding, and UTF-8 for the code units below the
  surrogate range.
\<close>

definition b64_char :: "nat \<Rightarrow> nat" where
  "b64_char n = (if n < 26 then 65 + n else if n < 52 then 97 + (n - 26)
                 else if n < 62 then 48 + (n - 52) else if n = 62 then 43 else 47)"

fun b64_encode :: "nat list \<Rightarrow> jsstring" where
  "b64_encode (a # b # c # r) =
     b64_char (a div 4) # b64_char ((a mod 4) * 16 + b div 16)
       # b64_char ((b mod 16) * 4 + c div 64) # b64_char (c mod 64) # b64_encode r"
| "b64_encode [a, b] =
     [b64_char (a div 4), b64_char ((a mod 4) * 16 + b div 16), b64_char ((b mod 16) * 4), 61]"
| "b64_encode [a] = [b64_char (a div 4), b64_char ((a mod 4) * 16), 61, 61]"
| "b64_encode [] = []"

definition utf8_unit :: "nat \<Rightarrow> nat list" where
  "utf8_unit c = (if c < 128 then [c]
     else if c < 2048 then [192 + c div 64, 128 + c mod 64]
     else [224 + c div 4096, 128 + (c div 64) mod 64, 128 + c mod 64])"

definition utf8_encode :: "jsstring \<Rightarrow> nat list" where
  "utf8_encode s = concat (map utf8_unit s)"

text \<open>
  Modelled from the spec: the JSON text of the object
  \<open>{v:1, masks:[{x:0.1,y:0.2,w:0.3,h:0.4}]}\<close> of the round-trip example, and the mask of
  that object, whose fields are the doubles that the decimal literals denote.
\<close>

definition round_trip_text :: jsstring where
  \<open>round_trip_text = js ''{"v":1,"masks":[{"x":0.1,"y":0.2,"w":0.3,"h":0.4}]}''\<close>

definition round_trip_mask :: jsval where
  "round_trip_mask = Obj [(js ''x'', Num (fl (1 / 10))), (js ''y'', Num (fl (2 / 10))),
                          (js ''w'', Num (fl (3 / 10))), (js ''h'', Num (fl (4 / 10)))]"

section \<open>Properties\<close>

subsection \<open>Rounding to a double\<close>

text \<open>
  \<open>ilog2\<close> is the binary exponent; integers below \<open>2^53\<close> in magnitude are doubles and
  round to themselves; a rational of magnitude at least 1 never rounds to zero.
\<close>

lemma ilog2_bounds:
  assumes "0 < q"
  shows "2 powi (ilog2 q) \<le> q" and "q < 2 powi (ilog2 q + 1)"
proof -
  obtain a b where ab: "quotient_of q = (a, b)" by force
  have b: "0 < b" using quotient_of_denom_pos[OF ab] .
  have q: "q = of_int a / of_int b" using quotient_of_div[OF ab] .
  have a: "0 < a" using assms b q by (simp add: zero_less_divide_iff)
  define la lb where "la = bitlen a" and "lb = bitlen b"
  have la: "2 ^ nat (la - 1) \<le> a" "a < 2 ^ nat la" and lb: "2 ^ nat (lb - 1) \<le> b" "b < 2 ^ nat lb"
    using bitlen_bounds[OF a] bitlen_bounds[OF b] by (simp_all add: la_def lb_def)
  have la1: "1 \<le> la" and lb1: "1 \<le> lb"
    using a b bitlen_eq_zero_iff[of a] bitlen_eq_zero_iff[of b] bitlen_nonneg[of a] bitlen_nonneg[of b]
    by (auto simp: la_def lb_def)
  have A1: "(2::rat) powi (la - 1) \<le> of_int a"
  proof -
    have "(of_int (2 ^ nat (la - 1)) :: rat) \<le> of_int a" using la(1) by (simp only: of_int_le_iff)
    then show ?thesis using la1 by (simp add: power_int_def)
  qed
  have A2: "of_int a < (2::rat) powi la"
  proof -
    have "(of_int a :: rat) < of_int (2 ^ nat la)" using la(2) by (simp only: of_int_less_iff)
    then show ?thesis using la1 by (simp add: power_int_def)
  qed
  have B1: "(2::rat) powi (lb - 1) \<le> of_int b"
  proof -
    have "(of_int (2 ^ nat (lb - 1)) :: rat) \<le> of_int b" using lb(1) by (simp only: of_int_le_iff)
    then show ?thesis using lb1 by (simp add: power_int_def)
  qed
  have B2: "of_int b < (2::rat) powi lb"
  proof -
    have "(of_int b :: rat) < of_int (2 ^ nat lb)" using lb(2) by (simp only: of_int_less_iff)
    then show ?thesis using lb1 by (simp add: power_int_def)
  qed
  have bpos: "(0::rat) < of_int b" using b by simp
  have apos: "(0::rat) < of_int a" using a by simp
  have up: "q < 2 powi (la - lb + 1)"
  proof -
    have "q < 2 powi la / 2 powi (lb - 1)"
      unfolding q using A2 B1 apos bpos
      by (intro frac_less) simp_all
    also have "\<dots> = 2 powi (la - (lb - 1))" by (simp add: power_int_diff)
    finally show ?thesis by (simp add: algebra_simps)
  qed
  have lo: "2 powi (la - lb - 1) \<le> q"
  proof -
    have "2 powi (la - 1) / 2 powi lb \<le> q"
      unfolding q using A1 B2 apos bpos
      by (intro frac_le) simp_all
    moreover have "(2::rat) powi (la - 1) / 2 powi lb = 2 powi (la - 1 - lb)" by (simp add: power_int_diff)
    ultimately show ?thesis by (simp add: algebra_simps)
  qed
  have il: "ilog2 q = (if 2 powi (la - lb) \<le> q then la - lb else la - lb - 1)"
    by (simp add: ilog2_def ab la_def lb_def Let_def)
  show "2 powi (ilog2 q) \<le> q" using lo by (simp add: il)
  show "q < 2 powi (ilog2 q + 1)" using up by (auto simp: il not_le)
qed

lemma round_even_of_int: "round_even (of_int k) = k"
  by (simp add: round_even_def)

lemma fl_minus: "fl (- q) = (case fl q of Fin r \<Rightarrow> Fin (- r) | PInf \<Rightarrow> NInf | NInf \<Rightarrow> PInf | NaN \<Rightarrow> NaN)"
  by (cases "q = 0"; cases "0 < q") (auto simp: fl_def Let_def)

lemma ilog2_nonneg: "1 \<le> q \<Longrightarrow> 0 \<le> ilog2 q"
proof (rule ccontr)
  assume q: "1 \<le> q" and "\<not> 0 \<le> ilog2 q"
  then have "ilog2 q + 1 \<le> 0" by simp
  then have "(2::rat) powi (ilog2 q + 1) \<le> 2 powi 0" by (intro power_int_increasing) simp_all
  with ilog2_bounds(2)[of q] q show False by simp
qed

lemma fl_of_int_pos:
  assumes "0 < n" "n < 2 ^ 53"
  shows "fl (of_int n) = Fin (of_int n)"
proof -
  let ?q = "of_int n :: rat"
  let ?e = "ilog2 ?q"
  have q1: "1 \<le> ?q" using assms by simp
  have e0: "0 \<le> ?e" using ilog2_nonneg[OF q1] .
  have e52: "?e \<le> 52"
  proof (rule ccontr)
    assume "\<not> ?e \<le> 52"
    then have "(2::rat) powi 53 \<le> 2 powi ?e" by (intro power_int_increasing) simp_all
    also have "\<dots> \<le> ?q" using ilog2_bounds(1)[of ?q] q1 by simp
    finally have "(2::rat) ^ 53 \<le> of_int n" by simp
    then have "(of_int (2 ^ 53) :: rat) \<le> of_int n" by simp
    then have "2 ^ 53 \<le> n" by (simp only: of_int_le_iff)
    with assms show False by simp
  qed
  define k where "k = nat (52 - ?e)"
  have u: "(2::rat) powi (?e - 52) = 1 / 2 ^ k"
    using e52 by (simp add: power_int_def k_def field_simps)
  have m: "?q / (1 / 2 ^ k) = of_int (n * 2 ^ k)" by simp
  have r: "of_int (round_even (?q / (1 / 2 ^ k))) * (1 / 2 ^ k) = ?q"
    by (simp only: m round_even_of_int) simp
  have small: "\<not> (2::rat) ^ 1024 \<le> ?q"
  proof
    assume "(2::rat) ^ 1024 \<le> ?q"
    then have "(of_int (2 ^ 1024) :: rat) \<le> of_int n" by simp
    then have "2 ^ 1024 \<le> n" by (simp only: of_int_le_iff)
    moreover have "(2::int) ^ 53 \<le> 2 ^ 1024" by (intro power_increasing) simp_all
    ultimately show False using assms by linarith
  qed
  have mx: "max ?e (- 1022) = ?e" using e0 by simp
  have qpos: "0 < ?q" "?q \<noteq> 0" "\<bar>?q\<bar> = ?q" using assms by simp_all
  show ?thesis
    unfolding fl_def Let_def qpos(3) mx u r
    using small qpos by simp
qed

lemma fl_of_int:
  assumes "\<bar>n\<bar> < 2 ^ 53"
  shows "fl (of_int n) = Fin (of_int n)"
proof (cases "n = 0" "0 < n" rule: case_split[case_product case_split])
  case True_True then show ?thesis by simp
next
  case True_False then show ?thesis by (simp add: fl_def)
next
  case False_True then show ?thesis using assms fl_of_int_pos[of n] by simp
next
  case False_False
  then have "0 < - n" "- n < 2 ^ 53" using assms by simp_all
  from fl_of_int_pos[OF this] have "fl (- of_int n) = Fin (- of_int n)" by simp
  then show ?thesis using fl_minus[of "- of_int n"] by simp
qed

lemma fl_ge_one:
  assumes "1 \<le> q"
  shows "fl q = PInf \<or> (\<exists>r. fl q = Fin r \<and> 1 \<le> r)"
proof -
  let ?e = "ilog2 q"
  have e0: "0 \<le> ?e" using ilog2_nonneg[OF assms] .
  have qpos: "0 < q" "q \<noteq> 0" "\<bar>q\<bar> = q" using assms by simp_all
  let ?u = "(2::rat) powi (?e - 52)"
  have upos: "0 < ?u" by simp
  let ?m = "round_even (q / ?u)"
  have "2 powi ?e / ?u \<le> q / ?u" using ilog2_bounds(1)[OF qpos(1)] upos by (simp add: divide_right_mono)
  moreover have "(2::rat) powi ?e / ?u = 2 ^ 52"
    by (simp add: power_int_diff[symmetric])
  ultimately have big: "(2::rat) ^ 52 \<le> q / ?u" by simp
  have "(of_int (2 ^ 52) :: rat) \<le> q / ?u" using big by simp
  then have "2 ^ 52 \<le> \<lfloor>q / ?u\<rfloor>" by (simp only: le_floor_iff)
  moreover have "\<lfloor>q / ?u\<rfloor> \<le> ?m" by (simp add: round_even_def Let_def)
  ultimately have m: "2 ^ 52 \<le> ?m" by (rule order_trans)
  have "(2::rat) ^ 52 * ?u \<le> of_int ?m * ?u"
  proof -
    have "(of_int (2 ^ 52) :: rat) \<le> of_int ?m" using m by (simp only: of_int_le_iff)
    then show ?thesis using upos by (simp add: mult_right_mono)
  qed
  moreover have "(2::rat) ^ 52 * ?u = 2 powi ?e"
  proof -
    have "(2::rat) powi 52 * 2 powi (?e - 52) = 2 powi (52 + (?e - 52))"
      by (subst power_int_add) simp_all
    then show ?thesis by simp
  qed
  moreover have "(1::rat) \<le> 2 powi ?e" using e0 by simp
  ultimately have r1: "1 \<le> of_int ?m * ?u" by linarith
  have mx: "max ?e (- 1022) = ?e" using e0 by simp
  show ?thesis
    unfolding fl_def Let_def qpos(3) mx using qpos r1 by simp
qed


lemma fl_numeral: "(numeral k :: int) < 2 ^ 53 \<Longrightarrow> fl (numeral k) = Fin (numeral k)"
  using fl_of_int[of "numeral k"] by simp

lemma fl_neg_numeral: "(numeral k :: int) < 2 ^ 53 \<Longrightarrow> fl (- numeral k) = Fin (- numeral k)"
  using fl_of_int[of "- numeral k"] by simp

lemma fl_one: "fl 1 = Fin 1"
  using fl_of_int[of 1] by simp

lemma fl_zero: "fl 0 = Fin 0"
  by (simp add: fl_def)

lemma fl_pos:
  assumes "1 \<le> q"
  shows "num_lt (Fin 0) (fl q) \<and> num_truthy (fl q)"
  using fl_ge_one[OF assms] by auto

lemma decimal_foldl_nonneg:
  "\<forall>c \<in> set ds. is_digit c \<Longrightarrow> 0 \<le> v \<Longrightarrow> 0 \<le> foldl (\<lambda>v c. 10 * v + (int c - 48)) v ds"
proof (induction ds arbitrary: v)
  case Nil
  then show ?case by simp
next
  case (Cons d ds)
  have "0 \<le> 10 * v + (int d - 48)" using Cons.prems by (simp add: is_digit_def)
  with Cons show ?case by simp
qed

lemma decimal_nonneg: "\<forall>c \<in> set ds. is_digit c \<Longrightarrow> 0 \<le> decimal ds"
  unfolding decimal_def by (rule decimal_foldl_nonneg) simp_all

lemma parseInt10_unsigned:
  assumes "\<not> (\<exists>r. dropWhile is_space s = 45 # r)"
  shows "parseInt10 s = NaN \<or> parseInt10 s = Fin 0 \<or> (num_lt (Fin 0) (parseInt10 s) \<and> num_truthy (parseInt10 s))"
proof -
  define t where "t = dropWhile is_space s"
  define r where "r = (if t \<noteq> [] \<and> (hd t = 45 \<or> hd t = 43) then tl t else t)"
  define ds where "ds = takeWhile is_digit r"
  have neg: "\<not> (t \<noteq> [] \<and> hd t = 45)"
    using assms unfolding t_def by (cases "dropWhile is_space s") auto
  have p: "parseInt10 s = (if ds = [] then NaN else fl (of_int (decimal ds)))"
    using neg by (auto simp add: parseInt10_def Let_def t_def[symmetric] r_def[symmetric] ds_def[symmetric])
  have "\<forall>c \<in> set ds. is_digit c" unfolding ds_def by (auto dest: set_takeWhileD)
  then have d0: "0 \<le> decimal ds" by (rule decimal_nonneg)
  show ?thesis
  proof (cases "ds = []")
    case True
    then show ?thesis by (simp add: p)
  next
    case False
    show ?thesis
    proof (cases "decimal ds = 0")
      case True
      then show ?thesis using False by (simp add: p fl_zero)
    next
      case False
      then have "1 \<le> (of_int (decimal ds) :: rat)" using d0 by simp
      from fl_pos[OF this] show ?thesis using \<open>ds \<noteq> []\<close> by (simp add: p)
    qed
  qed
qed

lemmas ev_parseInt = parseInt10_def js_def is_space_def is_digit_def decimal_def Let_def

lemma parseInt10_two: "parseInt10 (js ''2'') = Fin 2"
  by (simp add: ev_parseInt fl_numeral)

lemmas ev_style = read_style_def resolve_paint_def getAttribute_def or_default_def

lemma ilog2_ge:
  assumes "2 powi k \<le> q"
  shows "k \<le> ilog2 q"
proof (rule ccontr)
  assume "\<not> k \<le> ilog2 q"
  then have "ilog2 q + 1 \<le> k" by simp
  then have "(2::rat) powi (ilog2 q + 1) \<le> 2 powi k" by (intro power_int_increasing) simp_all
  moreover have "0 < q" using assms by (smt (verit) zero_less_power_int zero_less_numeral less_le_trans)
  ultimately show False using ilog2_bounds(2)[of q] assms by simp
qed

lemma fl_dyadic_pos:
  assumes "0 < n" "n < 2 ^ 53" "j \<le> 64"
  shows "fl (of_int n / 2 ^ j) = Fin (of_int n / 2 ^ j)"
proof -
  let ?q = "of_int n / 2 ^ j :: rat"
  let ?e = "ilog2 ?q"
  have qpos: "0 < ?q" "?q \<noteq> 0" "\<bar>?q\<bar> = ?q" using assms by simp_all
  have "(2::rat) powi (- int j) \<le> ?q"
    using assms(1) by (simp add: power_int_minus field_simps)
  then have elo: "- int j \<le> ?e" by (rule ilog2_ge)
  have e52: "?e + int j \<le> 52"
  proof (rule ccontr)
    assume "\<not> ?e + int j \<le> 52"
    then have "(2::rat) powi (53 - int j) \<le> 2 powi ?e" by (intro power_int_increasing) simp_all
    also have "\<dots> \<le> ?q" using ilog2_bounds(1)[of ?q] qpos by simp
    finally have "(2::rat) powi (53 - int j) * 2 ^ j \<le> of_int n" by (simp add: field_simps)
    moreover have "(2::rat) powi (53 - int j) * 2 ^ j = 2 ^ 53"
      by (simp add: power_int_diff)
    ultimately have "(of_int (2 ^ 53) :: rat) \<le> of_int n" by simp
    then have "2 ^ 53 \<le> n" by (simp only: of_int_le_iff)
    with assms show False by simp
  qed
  define k where "k = nat (52 - ?e - int j)"
  have u: "(2::rat) powi (?e - 52) = 1 / 2 ^ (k + j)"
  proof -
    have "?e - 52 = - int (k + j)" using e52 by (simp add: k_def)
    then show ?thesis by (simp only: power_int_minus power_int_of_nat) (simp add: field_simps)
  qed
  have m: "?q / (1 / 2 ^ (k + j)) = of_int (n * 2 ^ k)" by (simp add: power_add)
  have r: "of_int (round_even (?q / (1 / 2 ^ (k + j)))) * (1 / 2 ^ (k + j)) = ?q"
    by (simp only: m round_even_of_int) (simp add: power_add)
  have small: "\<not> (2::rat) ^ 1024 \<le> ?q"
  proof
    assume "(2::rat) ^ 1024 \<le> ?q"
    moreover have "?q \<le> of_int n" using assms(1) by (simp add: field_simps mult_le_cancel_left1)
    ultimately have "(of_int (2 ^ 1024) :: rat) \<le> of_int n" by simp
    then have "2 ^ 1024 \<le> n" by (simp only: of_int_le_iff)
    moreover have "(2::int) ^ 53 \<le> 2 ^ 1024" by (intro power_increasing) simp_all
    ultimately show False using assms by linarith
  qed
  have mx: "max ?e (- 1022) = ?e" using elo assms(3) by simp
  show ?thesis
    unfolding fl_def Let_def qpos(3) mx u r
    using small qpos by simp
qed

lemma fl_half: "(numeral k :: int) < 2 ^ 53 \<Longrightarrow> fl (numeral k / 2) = Fin (numeral k / 2)"
  using fl_dyadic_pos[of "numeral k" 1] by simp

lemma fl_one_half: "fl (1 / 2) = Fin (1 / 2)"
  using fl_half[of Num.One] by simp

lemma fl_quarter: "fl (1 / 4) = Fin (1 / 4)"
  using fl_dyadic_pos[of 1 2] by simp

subsection \<open>The outline width\<close>

lemma fl_neg:
  assumes "q \<le> - 1"
  shows "num_lt (fl q) (Fin 0) \<and> num_truthy (fl q)"
proof -
  have "1 \<le> - q" using assms by simp
  from fl_ge_one[OF this] have "fl (- q) = PInf \<or> (\<exists>r. fl (- q) = Fin r \<and> 1 \<le> r)" .
  moreover have "fl q = (case fl (- q) of Fin r \<Rightarrow> Fin (- r) | PInf \<Rightarrow> NInf | NInf \<Rightarrow> PInf | NaN \<Rightarrow> NaN)"
    using fl_minus[of "- q"] by simp
  ultimately show ?thesis by auto
qed

lemma parseInt10_text:
  "parseInt10 s =
     (let t = dropWhile is_space s;
          body = (if t \<noteq> [] \<and> (hd t = 45 \<or> hd t = 43) then tl t else t);
          ds = takeWhile is_digit body
      in if ds = [] then NaN
         else if t \<noteq> [] \<and> hd t = 45 then fl (of_int (- decimal ds)) else fl (of_int (decimal ds)))"
  by (simp add: parseInt10_def Let_def)

lemmas ev_text = styled_root_def getAttribute_def js_def is_space_def is_digit_def decimal_def

text \<open>
  Claim C9, as the code has it. The outline width that \<open>initOne\<close> resolves is never zero
  and never \<open>NaN\<close>, and it is the line width that \<open>draw\<close> assigns. An absent or empty
  attribute gives the default 2. Otherwise \<open>parseInt\<close> skips leading white space and one
  sign and reads the decimal digits that follow: if there is no digit, or the digits
  denote zero (as in \<open>"0"\<close>, \<open>"-0"\<close>, \<open>"-abc"\<close>), the width is the default 2; if the sign
  is a minus and the digits denote \<open>n > 0\<close>, the width is the negative number \<open>-n\<close>
  (\<open>"-3"\<close> gives -3); in every other case it is the positive number \<open>n\<close>
  (\<open>" 7px"\<close> gives 7).
\<close>

theorem outline_width_resolved:
  "num_truthy (outline_px (read_style rt))
   \<and> p_lw (resolve_paint (read_style rt)) = outline_px (read_style rt)
   \<and> (getAttribute rt (js ''data-outline-px'') = None \<or> getAttribute rt (js ''data-outline-px'') = Some []
        \<longrightarrow> outline_px (read_style rt) = Fin 2)
   \<and> (\<forall>s t body ds.
          getAttribute rt (js ''data-outline-px'') = Some s \<and> s \<noteq> []
          \<and> t = dropWhile is_space s
          \<and> body = (if t \<noteq> [] \<and> (hd t = 45 \<or> hd t = 43) then tl t else t)
          \<and> ds = takeWhile is_digit body
          \<longrightarrow> (ds = [] \<or> decimal ds = 0 \<longrightarrow> outline_px (read_style rt) = Fin 2)
            \<and> (ds \<noteq> [] \<and> decimal ds \<noteq> 0 \<and> t \<noteq> [] \<and> hd t = 45 \<longrightarrow>
                  outline_px (read_style rt) = fl (of_int (- decimal ds))
                  \<and> num_lt (outline_px (read_style rt)) (Fin 0))
            \<and> (ds \<noteq> [] \<and> decimal ds \<noteq> 0 \<and> \<not> (t \<noteq> [] \<and> hd t = 45) \<longrightarrow>
                  outline_px (read_style rt) = fl (of_int (decimal ds))
                  \<and> num_lt (Fin 0) (outline_px (read_style rt))))"
proof -
  define a where "a = getAttribute rt (js ''data-outline-px'')"
  define n where "n = parseInt10 (or_default a (js ''2''))"
  have o: "outline_px (read_style rt) = (if num_truthy n then n else Fin 2)"
    by (simp add: read_style_def n_def a_def Let_def)
  have t: "num_truthy (outline_px (read_style rt))" by (simp add: o)
  have lw: "p_lw (resolve_paint (read_style rt)) = outline_px (read_style rt)"
    using t by (simp add: resolve_paint_def)
  have absent: "outline_px (read_style rt) = Fin 2" if "a = None \<or> a = Some []"
    using that by (auto simp add: o n_def or_default_def parseInt10_two)
  have present:
    "(ds = [] \<or> decimal ds = 0 \<longrightarrow> outline_px (read_style rt) = Fin 2)
     \<and> (ds \<noteq> [] \<and> decimal ds \<noteq> 0 \<and> t \<noteq> [] \<and> hd t = 45 \<longrightarrow>
           outline_px (read_style rt) = fl (of_int (- decimal ds))
           \<and> num_lt (outline_px (read_style rt)) (Fin 0))
     \<and> (ds \<noteq> [] \<and> decimal ds \<noteq> 0 \<and> \<not> (t \<noteq> [] \<and> hd t = 45) \<longrightarrow>
           outline_px (read_style rt) = fl (of_int (decimal ds))
           \<and> num_lt (Fin 0) (outline_px (read_style rt)))"
    if s: "a = Some s" "s \<noteq> []" and tt: "t = dropWhile is_space s"
      and bb: "body = (if t \<noteq> [] \<and> (hd t = 45 \<or> hd t = 43) then tl t else t)"
      and dd: "ds = takeWhile is_digit body" for s t body ds
  proof -
    have n: "n = (if ds = [] then NaN
         else if t \<noteq> [] \<and> hd t = 45 then fl (of_int (- decimal ds)) else fl (of_int (decimal ds)))"
      unfolding n_def using s by (simp add: or_default_def parseInt10_text Let_def tt bb dd)
    have "\<forall>c \<in> set ds. is_digit c" unfolding dd by (auto dest: set_takeWhileD)
    then have d0: "0 \<le> decimal ds" by (rule decimal_nonneg)
    show ?thesis
    proof (cases "ds = [] \<or> decimal ds = 0")
      case True
      then show ?thesis by (auto simp: o n fl_zero)
    next
      case False
      then have d1: "1 \<le> decimal ds" using d0 by simp
      have pos: "num_lt (Fin 0) (fl (of_int (decimal ds))) \<and> num_truthy (fl (of_int (decimal ds)))"
        using fl_pos[of "of_int (decimal ds)"] d1 by simp
      have neg: "num_lt (fl (of_int (- decimal ds))) (Fin 0) \<and> num_truthy (fl (of_int (- decimal ds)))"
        using fl_neg[of "of_int (- decimal ds)"] d1 by simp
      show ?thesis using False pos neg by (auto simp: o n)
    qed
  qed
  show ?thesis using t lw absent present unfolding a_def by blast
qed

theorem outline_width_resolved_witness:
  "outline_px (read_style (Element 0 (js ''div'') [] [] [])) = Fin 2
   \<and> outline_px (read_style (styled_root (js ''wide''))) = Fin 2
   \<and> outline_px (read_style (styled_root (js ''0''))) = Fin 2
   \<and> outline_px (read_style (styled_root (js ''-3''))) = Fin (- 3)
   \<and> num_lt (outline_px (read_style (styled_root (js ''-3'')))) (Fin 0)
   \<and> outline_px (read_style (styled_root (js '' 7px''))) = Fin 7
   \<and> num_lt (Fin 0) (outline_px (read_style (styled_root (js '' 7px''))))"
proof -
  have a: "getAttribute (Element 0 (js ''div'') [] [] []) (js ''data-outline-px'') = None"
    by (simp add: getAttribute_def)
  have A: "outline_px (read_style (Element 0 (js ''div'') [] [] [])) = Fin 2"
    using a outline_width_resolved[of "Element 0 (js ''div'') [] [] []"] by blast
  have iB: "(getAttribute (styled_root (js ''wide'')) (js ''data-outline-px'') = Some (js ''wide'')
        \<and> js ''wide'' \<noteq> [] \<and> js ''wide'' = dropWhile is_space (js ''wide'')
        \<and> js ''wide'' = (if js ''wide'' \<noteq> [] \<and> (hd (js ''wide'') = 45 \<or> hd (js ''wide'') = 43)
                          then tl (js ''wide'') else js ''wide'')
        \<and> [] = takeWhile is_digit (js ''wide''))
      \<longrightarrow> (([] = ([]::jsstring) \<or> decimal [] = 0) \<longrightarrow>
            outline_px (read_style (styled_root (js ''wide''))) = Fin 2)"
    using outline_width_resolved[of "styled_root (js ''wide'')"] by blast
  have pB: "getAttribute (styled_root (js ''wide'')) (js ''data-outline-px'') = Some (js ''wide'')
        \<and> js ''wide'' \<noteq> [] \<and> js ''wide'' = dropWhile is_space (js ''wide'')
        \<and> js ''wide'' = (if js ''wide'' \<noteq> [] \<and> (hd (js ''wide'') = 45 \<or> hd (js ''wide'') = 43)
                          then tl (js ''wide'') else js ''wide'')
        \<and> [] = takeWhile is_digit (js ''wide'')"
    by (simp add: ev_text)
  have qB: "[] = ([]::jsstring) \<or> decimal [] = 0"
    by (simp add: ev_text)
  have B: "outline_px (read_style (styled_root (js ''wide''))) = Fin 2"
    using iB pB qB by blast
  have iC: "(getAttribute (styled_root (js ''0'')) (js ''data-outline-px'') = Some (js ''0'')
        \<and> js ''0'' \<noteq> [] \<and> js ''0'' = dropWhile is_space (js ''0'')
        \<and> js ''0'' = (if js ''0'' \<noteq> [] \<and> (hd (js ''0'') = 45 \<or> hd (js ''0'') = 43)
                          then tl (js ''0'') else js ''0'')
        \<and> js ''0'' = takeWhile is_digit (js ''0''))
      \<longrightarrow> ((js ''0'' = [] \<or> decimal (js ''0'') = 0) \<longrightarrow>
            outline_px (read_style (styled_root (js ''0''))) = Fin 2)"
    using outline_width_resolved[of "styled_root (js ''0'')"] by blast
  have pC: "getAttribute (styled_root (js ''0'')) (js ''data-outline-px'') = Some (js ''0'')
        \<and> js ''0'' \<noteq> [] \<and> js ''0'' = dropWhile is_space (js ''0'')
        \<and> js ''0'' = (if js ''0'' \<noteq> [] \<and> (hd (js ''0'') = 45 \<or> hd (js ''0'') = 43)
                          then tl (js ''0'') else js ''0'')
        \<and> js ''0'' = takeWhile is_digit (js ''0'')"
    by (simp add: ev_text)
  have qC: "js ''0'' = [] \<or> decimal (js ''0'') = 0"
    by (simp add: ev_text)
  have C: "outline_px (read_style (styled_root (js ''0''))) = Fin 2"
    using iC pC qC by blast
  have iD: "(getAttribute (styled_root (js ''-3'')) (js ''data-outline-px'') = Some (js ''-3'')
        \<and> js ''-3'' \<noteq> [] \<and> js ''-3'' = dropWhile is_space (js ''-3'')
        \<and> js ''3'' = (if js ''-3'' \<noteq> [] \<and> (hd (js ''-3'') = 45 \<or> hd (js ''-3'') = 43)
                          then tl (js ''-3'') else js ''-3'')
        \<and> js ''3'' = takeWhile is_digit (js ''3''))
      \<longrightarrow> ((js ''3'' \<noteq> [] \<and> decimal (js ''3'') \<noteq> 0 \<and> js ''-3'' \<noteq> [] \<and> hd (js ''-3'') = 45) \<longrightarrow>
            outline_px (read_style (styled_root (js ''-3''))) = fl (of_int (- decimal (js ''3'')))
            \<and> num_lt (outline_px (read_style (styled_root (js ''-3'')))) (Fin 0))"
    using outline_width_resolved[of "styled_root (js ''-3'')"] by blast
  have pD: "getAttribute (styled_root (js ''-3'')) (js ''data-outline-px'') = Some (js ''-3'')
        \<and> js ''-3'' \<noteq> [] \<and> js ''-3'' = dropWhile is_space (js ''-3'')
        \<and> js ''3'' = (if js ''-3'' \<noteq> [] \<and> (hd (js ''-3'') = 45 \<or> hd (js ''-3'') = 43)
                          then tl (js ''-3'') else js ''-3'')
        \<and> js ''3'' = takeWhile is_digit (js ''3'')"
    by (simp add: ev_text)
  have qD: "js ''3'' \<noteq> [] \<and> decimal (js ''3'') \<noteq> 0 \<and> js ''-3'' \<noteq> [] \<and> hd (js ''-3'') = 45"
    by (simp add: ev_text)
  have D: "outline_px (read_style (styled_root (js ''-3''))) = fl (of_int (- decimal (js ''3'')))
            \<and> num_lt (outline_px (read_style (styled_root (js ''-3'')))) (Fin 0)"
    using iD pD qD by blast
  have iE: "(getAttribute (styled_root (js '' 7px'')) (js ''data-outline-px'') = Some (js '' 7px'')
        \<and> js '' 7px'' \<noteq> [] \<and> js ''7px'' = dropWhile is_space (js '' 7px'')
        \<and> js ''7px'' = (if js ''7px'' \<noteq> [] \<and> (hd (js ''7px'') = 45 \<or> hd (js ''7px'') = 43)
                          then tl (js ''7px'') else js ''7px'')
        \<and> js ''7'' = takeWhile is_digit (js ''7px''))
      \<longrightarrow> ((js ''7'' \<noteq> [] \<and> decimal (js ''7'') \<noteq> 0 \<and> \<not> (js ''7px'' \<noteq> [] \<and> hd (js ''7px'') = 45)) \<longrightarrow>
            outline_px (read_style (styled_root (js '' 7px''))) = fl (of_int (decimal (js ''7'')))
            \<and> num_lt (Fin 0) (outline_px (read_style (styled_root (js '' 7px'')))))"
    using outline_width_resolved[of "styled_root (js '' 7px'')"] by blast
  have pE: "getAttribute (styled_root (js '' 7px'')) (js ''data-outline-px'') = Some (js '' 7px'')
        \<and> js '' 7px'' \<noteq> [] \<and> js ''7px'' = dropWhile is_space (js '' 7px'')
        \<and> js ''7px'' = (if js ''7px'' \<noteq> [] \<and> (hd (js ''7px'') = 45 \<or> hd (js ''7px'') = 43)
                          then tl (js ''7px'') else js ''7px'')
        \<and> js ''7'' = takeWhile is_digit (js ''7px'')"
    by (simp add: ev_text)
  have qE: "js ''7'' \<noteq> [] \<and> decimal (js ''7'') \<noteq> 0 \<and> \<not> (js ''7px'' \<noteq> [] \<and> hd (js ''7px'') = 45)"
    by (simp add: ev_text)
  have E: "outline_px (read_style (styled_root (js '' 7px''))) = fl (of_int (decimal (js ''7'')))
            \<and> num_lt (Fin 0) (outline_px (read_style (styled_root (js '' 7px''))))"
    using iE pE qE by blast
  have d: "fl (of_int (- decimal (js ''3''))) = Fin (- 3)"
    by (simp add: ev_text fl_neg_numeral)
  have e: "fl (of_int (decimal (js ''7''))) = Fin 7"
    by (simp add: ev_text fl_numeral)
  show ?thesis using A B C D E unfolding d e by blast
qed

text \<open>
  Claim C9, as stated, fails: the attribute \<open>data-outline-px="-3"\<close> resolves to the
  width -3, which is not positive, and \<open>draw\<close> assigns -3 as the line width.
\<close>

theorem outline_width_negative:
  "outline_px (read_style (styled_root (js ''-3''))) = Fin (- 3)
   \<and> \<not> num_lt (Fin 0) (outline_px (read_style (styled_root (js ''-3''))))
   \<and> p_lw (resolve_paint (read_style (styled_root (js ''-3'')))) = Fin (- 3)"
  by (simp add: styled_root_def ev_style ev_parseInt fl_neg_numeral)

subsection \<open>The scaffolding in the tree\<close>

text \<open>
  How \<open>path\<close>, \<open>closest\<close>, \<open>lookup\<close> and \<open>querySelector\<close> see the tree after
  \<open>enclose\<close> and \<open>append_child\<close>, and the two scaffolding steps applied twice.
\<close>

lemma path_hd: "path i e \<noteq> [] \<Longrightarrow> hd (path i e) = e"
  by (cases e) (auto split: list.splits)

lemma path_self: "path (ident e) e = [e]"
  by (cases e) simp

lemma path_unfold:
  "ident e \<noteq> i \<Longrightarrow> path i e = (if path_list i (kids e) = [] then [] else e # path_list i (kids e))"
  by (cases e) (auto split: list.splits)

lemma ident_enclose [simp]: "ident (enclose i w e) = ident e"
  by (cases e) simp

lemma ident_new_wrapper [simp]: "ident (new_wrapper w ks) = w"
  by (simp add: new_wrapper_def)

lemma kids_enclose:
  "kids (enclose i w e) = map (\<lambda>k. if ident k = i then new_wrapper w [k] else enclose i w k) (kids e)"
  by (cases e) simp

lemma path_wrapper: "w \<noteq> i \<Longrightarrow> ident k = i \<Longrightarrow> path i (new_wrapper w [k]) = [new_wrapper w [k], k]"
  using path_self[of k] by (auto simp: new_wrapper_def)

lemma wrapped_Nil [simp]: "wrapped i w [] = []"
  by (simp add: wrapped_def)

lemma wrapped_Cons: "ps \<noteq> [] \<Longrightarrow> wrapped i w (e # ps) = enclose i w e # wrapped i w ps"
  by (simp add: wrapped_def)

lemma wrapped_single: "wrapped i w [k] = [new_wrapper w [k], k]"
  by (simp add: wrapped_def)

lemma wrapped_eq_Nil [simp]: "wrapped i w ps = [] \<longleftrightarrow> ps = []"
  by (simp add: wrapped_def)

lemma path_enclose:
  assumes "w \<noteq> i"
  shows "ident e \<noteq> i \<Longrightarrow> path i (enclose i w e) = wrapped i w (path i e)"
proof (induction e)
  case (Element j t a x ks)
  have kids: "path_list i (map (\<lambda>k. if ident k = i then new_wrapper w [k] else enclose i w k) ks')
        = wrapped i w (path_list i ks')" if "set ks' \<subseteq> set ks" for ks'
    using that
  proof (induction ks')
    case Nil
    then show ?case by simp
  next
    case (Cons k ks')
    show ?case
    proof (cases "ident k = i")
      case True
      then have pk: "path i k = [k]" using path_self[of k] by simp
      show ?thesis using True pk path_wrapper[OF assms True]
        by (simp add: wrapped_single)
    next
      case False
      have IH: "path i (enclose i w k) = wrapped i w (path i k)"
        using Element.IH[of k] Cons.prems False by simp
      show ?thesis
      proof (cases "path i k")
        case Nil
        then show ?thesis using False IH Cons by simp
      next
        case (Cons p ps)
        then show ?thesis using False IH
          by (cases "wrapped i w (p # ps)") (simp_all)
      qed
    qed
  qed
  from Element.prems have ji: "i \<noteq> j" by simp
  show ?case
  proof (cases "path_list i ks")
    case Nil
    then show ?thesis using ji kids[of ks] by simp
  next
    case (Cons p ps)
    have "wrapped i w (p # ps) \<noteq> []" by simp
    then obtain q qs where q: "wrapped i w (p # ps) = q # qs" by (cases "wrapped i w (p # ps)") auto
    show ?thesis using ji kids[of ks] Cons q
      by (simp add: wrapped_Cons)
  qed
qed


lemma matches_cong: "tag e = tag e' \<Longrightarrow> attrs e = attrs e' \<Longrightarrow> matches s e = matches s e'"
  by (simp add: matches_def classList_def getAttribute_def split: option.splits)

lemma matches_enclose [simp]: "matches s (enclose i w e) = matches s e"
  by (cases e) (simp add: matches_def classList_def getAttribute_def split: option.splits)

lemma js_inj [simp]: "js a = js b \<longleftrightarrow> a = b"
  unfolding js_def by (rule inj_map_eq_map) (rule inj_of_char)

lemma matches_wrap_new_wrapper [simp]: "matches sel_wrap (new_wrapper w ks)"
  by (simp add: matches_def sel_wrap_def new_wrapper_def classList_def getAttribute_def
      or_default_def js_def is_ascii_ws_def)

lemma find_wrapped:
  assumes "find (matches sel_wrap) (rev ps) = None" "ps \<noteq> []"
  shows "find (matches sel_wrap) (rev (wrapped i w ps)) = Some (new_wrapper w [last ps])"
proof -
  have "\<not> matches sel_wrap (last ps)"
    using assms by (auto simp: find_None_iff)
  then show ?thesis using assms(2) by (simp add: wrapped_def)
qed

lemma parentNode_elem:
  "parentNode i d = ParentElement p \<Longrightarrow> ident d \<noteq> i \<and> path i d \<noteq> []"
proof -
  assume a: "parentNode i d = ParentElement p"
  have "path i d \<noteq> []" using a by (auto simp: parentNode_def)
  moreover have "ident d \<noteq> i"
  proof
    assume "ident d = i"
    then have "path i d = [d]" using path_self[of d] by simp
    with a show False by (simp add: parentNode_def)
  qed
  ultimately show ?thesis by simp
qed

lemma closest_enclose:
  assumes "closest sel_wrap i d = None" "parentNode i d = ParentElement p" "w \<noteq> i"
  shows "closest sel_wrap i (enclose i w d) = Some (new_wrapper w [last (path i d)])"
  using assms parentNode_elem[OF assms(2)]
  by (simp add: closest_def path_enclose find_wrapped)

lemma ensureWrapper_twice:
  assumes "ensureWrapper i w = (Inr wrap, w1)" and "fresh w \<noteq> i"
  shows "ensureWrapper i w1 = (Inr wrap, w1)
         \<and> (\<exists>e. closest sel_wrap i (doc w1) = Some e \<and> ident e = wrap)"
proof (cases "closest sel_wrap i (doc w)")
  case (Some e)
  then show ?thesis using assms by (auto simp: ensureWrapper_def)
next
  case None
  then obtain p where p: "parentNode i (doc w) = ParentElement p"
    using assms by (cases "parentNode i (doc w)") (auto simp: ensureWrapper_def Let_def)
  have w1: "w1 = w\<lparr>fresh := Suc (fresh w), doc := enclose i (fresh w) (doc w)\<rparr>" and wrap: "wrap = fresh w"
    using assms None p by (auto simp: ensureWrapper_def Let_def)
  have c: "closest sel_wrap i (doc w1) = Some (new_wrapper (fresh w) [last (path i (doc w))])"
    using closest_enclose[OF None p assms(2)] by (simp add: w1)
  show ?thesis using c wrap by (simp add: ensureWrapper_def)
qed

lemma ident_append_child [simp]: "ident (append_child p c e) = ident e"
  by (cases e) simp

lemma matches_append_child [simp]: "matches s (append_child p c e) = matches s e"
  by (cases e) (simp add: matches_def classList_def getAttribute_def split: option.splits)

lemma kids_append_child:
  "kids (append_child p c e) = map (append_child p c) (kids e) @ (if ident e = p then [c] else [])"
  by (cases e) simp

lemma find_append:
  "find P (xs @ ys) = (case find P xs of None \<Rightarrow> find P ys | Some x \<Rightarrow> Some x)"
  by (induction xs) auto

lemma find_concat_map:
  assumes "\<And>k. k \<in> set ks \<Longrightarrow> find P (flatten (f k)) = map_option f (find P (flatten k))"
  shows "find P (concat (map flatten (map f ks))) = map_option f (find P (concat (map flatten ks)))"
  using assms
proof (induction ks)
  case Nil
  then show ?case by simp
next
  case (Cons k ks)
  then show ?case by (cases "find P (flatten k)") (simp_all add: find_append)
qed

lemma lookup_append_child:
  "lookup p (append_child p c d) = map_option (append_child p c) (lookup p d)"
  unfolding lookup_def
proof (induction d)
  case (Element j t a x ks)
  show ?case
  proof (cases "j = p")
    case True
    then show ?thesis by simp
  next
    case False
    have "find (\<lambda>e. ident e = p) (concat (map flatten (map (append_child p c) ks)))
        = map_option (append_child p c) (find (\<lambda>e. ident e = p) (concat (map flatten ks)))"
      by (rule find_concat_map) (rule Element.IH)
    then show ?thesis using False by simp
  qed
qed

lemma lookup_ident: "lookup p d = Some e \<Longrightarrow> ident e = p"
  by (auto simp: lookup_def find_Some_iff)

lemma set_flatten_append_child:
  "set (flatten (append_child p c (Element j t a x ks)))
     \<subseteq> insert (append_child p c (Element j t a x ks))
         ((\<Union>k \<in> set ks. set (flatten (append_child p c k))) \<union> set (flatten c))"
  by (cases "j = p") auto

lemma flatten_append_child_matches:
  assumes "flatten c = [c]"
  shows "\<forall>x \<in> set (flatten k). \<not> matches s x \<Longrightarrow> y \<in> set (flatten (append_child p c k))
         \<Longrightarrow> matches s y \<Longrightarrow> y = c"
proof (induction k)
  case (Element j t a x ks)
  let ?e = "Element j t a x ks"
  have "\<not> matches s ?e" using Element.prems(1) by simp
  then have self': "\<not> matches s (append_child p c ?e)"
    using matches_append_child[of s p c ?e] by blast
  from Element.prems(2) set_flatten_append_child[of p c j t a x ks] consider
      (a) "y = append_child p c ?e"
    | (b) k where "k \<in> set ks" "y \<in> set (flatten (append_child p c k))"
    | (c) "y \<in> set (flatten c)"
    by blast
  then show ?case
  proof cases
    case a
    then show ?thesis using self' Element.prems(3) by simp
  next
    case b
    have "\<forall>x \<in> set (flatten k). \<not> matches s x" using Element.prems(1) b(1) by auto
    from Element.IH[OF b(1) this b(2) Element.prems(3)] show ?thesis .
  next
    case c
    then show ?thesis using assms by simp
  qed
qed

lemma find_all_same:
  "\<forall>y \<in> set xs. P y \<longrightarrow> y = c \<Longrightarrow> c \<in> set xs \<Longrightarrow> P c \<Longrightarrow> find P xs = Some c"
proof (induction xs)
  case Nil
  then show ?case by simp
next
  case (Cons a xs)
  show ?case
  proof (cases "P a")
    case True
    then have "a = c" using Cons.prems(1) by simp
    then show ?thesis using True by simp
  next
    case False
    then have "c \<noteq> a" using Cons.prems(3) by blast
    then have "c \<in> set xs" using Cons.prems(2) by simp
    moreover have "\<forall>y \<in> set xs. P y \<longrightarrow> y = c" using Cons.prems(1) by simp
    ultimately have "find P xs = Some c" using Cons.IH Cons.prems(3) by blast
    then show ?thesis using False by simp
  qed
qed

lemma matches_cv_new_canvas [simp]: "matches sel_cv (new_canvas n)"
  by (simp add: matches_def sel_cv_def new_canvas_def classList_def getAttribute_def
      or_default_def js_def is_ascii_ws_def)

lemma flatten_new_canvas [simp]: "flatten (new_canvas n) = [new_canvas n]"
  by (simp add: new_canvas_def)

lemma querySelector_append_child:
  assumes "lookup p d = Some e" "querySelector sel_cv e = None"
  shows "querySelector sel_cv (node (append_child p (new_canvas n) d) p) = Some (new_canvas n)"
proof -
  let ?c = "new_canvas n"
  have ie: "ident e = p" using lookup_ident[OF assms(1)] .
  have nd: "node (append_child p ?c d) p = append_child p ?c e"
    by (simp add: node_def lookup_append_child assms(1))
  have desc: "descendants (append_child p ?c e)
      = concat (map flatten (map (append_child p ?c) (kids e))) @ [?c]"
    using ie by (simp add: descendants_def kids_append_child)
  have d: "\<forall>x \<in> set (descendants e). \<not> matches sel_cv x"
    using assms(2) unfolding querySelector_def find_None_iff by blast
  have none: "\<forall>x \<in> set (flatten k). \<not> matches sel_cv x" if "k \<in> set (kids e)" for k
  proof -
    have "set (flatten k) \<subseteq> set (descendants e)"
      unfolding descendants_def using that by auto
    with d show ?thesis by blast
  qed
  have all: "\<forall>y \<in> set (descendants (append_child p ?c e)). matches sel_cv y \<longrightarrow> y = ?c"
  proof (intro ballI impI)
    fix y assume y: "y \<in> set (descendants (append_child p ?c e))" and m: "matches sel_cv y"
    from y consider (a) k where "k \<in> set (kids e)" "y \<in> set (flatten (append_child p ?c k))" | (b) "y = ?c"
      by (auto simp: desc)
    then show "y = ?c"
    proof cases
      case a
      from flatten_append_child_matches[OF flatten_new_canvas none[OF a(1)] a(2) m] show ?thesis .
    next
      case b
      then show ?thesis .
    qed
  qed
  have "find (matches sel_cv) (descendants (append_child p ?c e)) = Some ?c"
    by (rule find_all_same[OF all]) (simp_all add: desc)
  then show ?thesis by (simp add: nd querySelector_def)
qed

lemma makeCanvas_twice:
  assumes "lookup wrap (doc w) = Some e" and "makeCanvas wrap w = (cv, w1)"
  shows "makeCanvas wrap w1 = (cv, w1)
         \<and> (\<exists>c. querySelector sel_cv (node (doc w1) wrap) = Some c \<and> ident c = cv)"
proof (cases "querySelector sel_cv (node (doc w) wrap)")
  case (Some c)
  then show ?thesis using assms by (auto simp: makeCanvas_def)
next
  case None
  have nd: "node (doc w) wrap = e" using assms(1) by (simp add: node_def)
  have w1: "w1 = w\<lparr>fresh := Suc (fresh w), doc := append_child wrap (new_canvas (fresh w)) (doc w)\<rparr>"
    and cv: "cv = fresh w"
    using assms(2) None by (auto simp: makeCanvas_def)
  have q: "querySelector sel_cv (node (doc w1) wrap) = Some (new_canvas (fresh w))"
    using querySelector_append_child[OF assms(1)] None nd by (simp add: w1)
  have "ident (new_canvas (fresh w)) = fresh w" by (simp add: new_canvas_def)
  then show ?thesis using q cv by (simp add: makeCanvas_def)
qed

lemma find_Some_mem: "find P xs = Some x \<Longrightarrow> x \<in> set xs"
  by (induction xs) (simp_all split: if_splits)

lemma find_Some_holds: "find P xs = Some x \<Longrightarrow> P x"
  by (induction xs) (simp_all split: if_splits)

lemma find_map_cong:
  "(\<And>x. P (f x) = P x) \<Longrightarrow> find P (map f xs) = map_option f (find P xs)"
  by (induction xs) simp_all

lemma path_sub: "set (path i e) \<subseteq> set (flatten e)"
proof (induction e)
  case (Element j t a x ks)
  have kids: "set (path_list i ks') \<subseteq> (\<Union>k \<in> set ks'. set (flatten k))" if "set ks' \<subseteq> set ks" for ks'
    using that
  proof (induction ks')
    case Nil
    then show ?case by simp
  next
    case (Cons k ks')
    have "set (path i k) \<subseteq> set (flatten k)" using Element.IH[of k] Cons.prems by simp
    moreover have "set (path_list i ks') \<subseteq> (\<Union>k \<in> set ks'. set (flatten k))"
      using Cons by simp
    ultimately show ?case by (cases "path i k") auto
  qed
  show ?case
  proof (cases "i = j")
    case True
    then show ?thesis by simp
  next
    case False
    show ?thesis
    proof (cases "path_list i ks")
      case Nil
      then show ?thesis using False by simp
    next
      case (Cons p ps)
      have "set (p # ps) \<subseteq> (\<Union>k \<in> set ks. set (flatten k))" using kids[of ks] Cons by simp
      then show ?thesis using False Cons by auto
    qed
  qed
qed

lemma path_last: "path i e \<noteq> [] \<Longrightarrow> ident (last (path i e)) = i"
proof (induction e)
  case (Element j t a x ks)
  have kids: "path_list i ks' \<noteq> [] \<Longrightarrow> ident (last (path_list i ks')) = i" if "set ks' \<subseteq> set ks" for ks'
    using that
  proof (induction ks')
    case Nil
    then show ?case by simp
  next
    case (Cons k ks')
    show ?case
    proof (cases "path i k")
      case Nil
      then show ?thesis using Cons by simp
    next
      case (Cons p ps)
      then have "ident (last (path i k)) = i" using Element.IH[of k] Cons.prems \<open>set (k # ks') \<subseteq> set ks\<close> by simp
      then show ?thesis using Cons by simp
    qed
  qed
  show ?case
  proof (cases "i = j")
    case True
    then show ?thesis by simp
  next
    case False
    then show ?thesis using Element.prems kids[of ks] by (cases "path_list i ks") auto
  qed
qed

lemma closest_in_doc:
  assumes "closest s i d = Some e"
  shows "\<exists>e'. lookup (ident e) d = Some e'"
proof -
  have "e \<in> set (rev (path i d))" using assms unfolding closest_def by (rule find_Some_mem)
  then have "e \<in> set (path i d)" by simp
  then have "e \<in> set (flatten d)" using path_sub by blast
  then have "find (\<lambda>x. ident x = ident e) (flatten d) \<noteq> None"
    by (auto simp: find_None_iff)
  then show ?thesis by (auto simp: lookup_def)
qed

lemma img_in_doc:
  assumes "parentNode i d = ParentElement p"
  shows "\<exists>e \<in> set (flatten d). ident e = i"
proof -
  have ne: "path i d \<noteq> []" using parentNode_elem[OF assms] by simp
  then have "last (path i d) \<in> set (flatten d)" using path_sub[of i d] last_in_set[OF ne] by blast
  then show ?thesis using path_last[OF ne] by blast
qed

lemma path_append_child:
  assumes "path i c = []"
  shows "path i (append_child p c e) = map (append_child p c) (path i e)"
proof (induction e)
  case (Element j t a x ks)
  have kids: "path_list i (map (append_child p c) ks' @ ex) = map (append_child p c) (path_list i ks')"
    if "set ks' \<subseteq> set ks" "ex = [] \<or> ex = [c]" for ks' ex
    using that
  proof (induction ks')
    case Nil
    then show ?case using assms by auto
  next
    case (Cons k ks')
    have IH: "path i (append_child p c k) = map (append_child p c) (path i k)"
      using Element.IH[of k] Cons.prems by simp
    show ?case using IH Cons by (cases "path i k") simp_all
  qed
  show ?case
  proof (cases "i = j")
    case True
    then show ?thesis by simp
  next
    case False
    have "path_list i (map (append_child p c) ks @ (if j = p then [c] else []))
        = map (append_child p c) (path_list i ks)"
      by (rule kids) auto
    then show ?thesis using False by (cases "path_list i ks") simp_all
  qed
qed

lemma closest_append_child:
  assumes "path i c = []" "closest s i d = Some e"
  shows "closest s i (append_child p c d) = Some (append_child p c e)"
proof -
  have "find (matches s) (map (append_child p c) (rev (path i d)))
      = map_option (append_child p c) (find (matches s) (rev (path i d)))"
    by (rule find_map_cong) simp
  then show ?thesis using assms(2) by (simp add: closest_def path_append_child[OF assms(1)] rev_map)
qed

lemma ensureWrapper_fields:
  assumes "ensureWrapper i w = (r, w1)"
  shows "layout w1 = layout w \<and> devicePixelRatio w1 = devicePixelRatio w \<and> loaded w1 = loaded w
    \<and> hasResizeObserver w1 = hasResizeObserver w \<and> surfaces w1 = surfaces w \<and> frames w1 = frames w
    \<and> load_listeners w1 = load_listeners w \<and> resize_listeners w1 = resize_listeners w
    \<and> observers w1 = observers w \<and> fresh w \<le> fresh w1 \<and> fresh w1 \<le> Suc (fresh w)"
  using assms
  by (auto simp: ensureWrapper_def Let_def split: option.splits parent.splits)

lemma makeCanvas_fields:
  assumes "makeCanvas wr w = (cv, w1)"
  shows "layout w1 = layout w \<and> devicePixelRatio w1 = devicePixelRatio w \<and> loaded w1 = loaded w
    \<and> hasResizeObserver w1 = hasResizeObserver w \<and> surfaces w1 = surfaces w \<and> frames w1 = frames w
    \<and> load_listeners w1 = load_listeners w \<and> resize_listeners w1 = resize_listeners w
    \<and> observers w1 = observers w \<and> fresh w \<le> fresh w1 \<and> fresh w1 \<le> Suc (fresh w)"
  using assms
  by (auto simp: makeCanvas_def split: option.splits)

lemma ensureWrapper_found:
  "closest sel_wrap i (doc w) = Some e \<Longrightarrow> ensureWrapper i w = (Inr (ident e), w)"
  by (simp add: ensureWrapper_def)

lemma makeCanvas_found:
  "querySelector sel_cv (node (doc w) wr) = Some c \<Longrightarrow> makeCanvas wr w = (ident c, w)"
  by (simp add: makeCanvas_def)

lemma ensureWrapper_succeeds:
  assumes "parentNode i (doc w) = ParentElement p"
  shows "\<exists>wrap w1. ensureWrapper i w = (Inr wrap, w1)"
  using assms by (cases "closest sel_wrap i (doc w)") (simp_all add: ensureWrapper_def Let_def)

lemma fresh_not_img:
  assumes "fresh_unused w" "parentNode i (doc w) = ParentElement p"
  shows "i < fresh w"
  using img_in_doc[OF assms(2)] assms(1) by (auto simp: fresh_unused_def)

lemma ensureWrapper_Inr_cases:
  assumes "ensureWrapper i w = (Inr wrap, w1)"
  shows "(\<exists>e. closest sel_wrap i (doc w) = Some e) \<or> (\<exists>p. parentNode i (doc w) = ParentElement p)"
  using assms
  by (cases "closest sel_wrap i (doc w)"; cases "parentNode i (doc w)")
     (auto simp: ensureWrapper_def Let_def)

lemma path_new_canvas: "n \<noteq> i \<Longrightarrow> path i (new_canvas n) = []"
  by (simp add: new_canvas_def)

text \<open>The scaffold that a call of draw finds or builds.\<close>

lemma scaffold:
  assumes fu: "fresh_unused w" and par: "parentNode i (doc w) = ParentElement p"
  obtains wrap w1 cv w2 e c where
    "ensureWrapper i w = (Inr wrap, w1)" "makeCanvas wrap w1 = (cv, w2)"
    "closest sel_wrap i (doc w2) = Some e" "ident e = wrap"
    "querySelector sel_cv (node (doc w2) wrap) = Some c" "ident c = cv"
    "fresh w2 \<le> fresh w + 2"
proof -
  from ensureWrapper_succeeds[OF par] obtain wrap w1 where ew: "ensureWrapper i w = (Inr wrap, w1)"
    by blast
  have ne: "fresh w \<noteq> i" using fresh_not_img[OF fu par] by simp
  from ensureWrapper_twice[OF ew ne] obtain e1 where
    c1: "closest sel_wrap i (doc w1) = Some e1" and i1: "ident e1 = wrap" by blast
  from closest_in_doc[OF c1] obtain e1' where l1: "lookup wrap (doc w1) = Some e1'"
    using i1 by auto
  obtain cv w2 where mc: "makeCanvas wrap w1 = (cv, w2)" by (cases "makeCanvas wrap w1") auto
  from makeCanvas_twice[OF l1 mc] obtain c where
    q: "querySelector sel_cv (node (doc w2) wrap) = Some c" and ic: "ident c = cv" by blast
  have f1: "fresh w \<le> fresh w1" "fresh w1 \<le> Suc (fresh w)" using ensureWrapper_fields[OF ew] by simp_all
  have f2: "fresh w1 \<le> fresh w2" "fresh w2 \<le> Suc (fresh w1)" using makeCanvas_fields[OF mc] by simp_all
  have c2: "\<exists>e. closest sel_wrap i (doc w2) = Some e \<and> ident e = wrap"
  proof (cases "querySelector sel_cv (node (doc w1) wrap)")
    case (Some c')
    then have "w2 = w1" using mc by (simp add: makeCanvas_def)
    then show ?thesis using c1 i1 by simp
  next
    case None
    then have d2: "doc w2 = append_child wrap (new_canvas (fresh w1)) (doc w1)"
      using mc by (auto simp: makeCanvas_def)
    have "fresh w1 \<noteq> i" using fresh_not_img[OF fu par] f1 by simp
    from closest_append_child[OF path_new_canvas[OF this] c1]
    show ?thesis using i1 by (simp add: d2)
  qed
  then obtain e where "closest sel_wrap i (doc w2) = Some e" "ident e = wrap" by blast
  moreover have "fresh w2 \<le> fresh w + 2" using f1 f2 by simp
  ultimately show ?thesis using that ew mc q ic by blast
qed

lemma draw_unfold:
  assumes "ensureWrapper (img c) w = (Inr wrap, w1)" "makeCanvas wrap w1 = (cv, w2)"
  shows "draw c w =
     (let r = getBoundingClientRect w (img c) in
      if num_lt (width r) (Fin 2) \<or> num_lt (height r) (Fin 2)
      then (Inr (), w2\<lparr>frames := frames w @ [c]\<rparr>)
      else
        (let dpr = (if num_truthy (devicePixelRatio w) then devicePixelRatio w else Fin 1);
             s = (surface_of w2 cv)
                   \<lparr>style_width := Some (Px (width r)),
                    style_height := Some (Px (height r)),
                    buffer_width := Math_max (Fin 1) (Math_round (num_mul (width r) dpr)),
                    buffer_height := Math_max (Fin 1) (Math_round (num_mul (height r) dpr)),
                    calls := [SetTransform dpr (Fin 0) (Fin 0) dpr (Fin 0) (Fin 0),
                              ClearRect (Fin 0) (Fin 0) (width r) (height r)]\<rparr>
         in case forEach_mask (side c) (activeIndex c) (resolve_paint (style c)) r 0
                   (masks c) (calls s) of
              (res, cs) \<Rightarrow> (res, set_surface cv (s\<lparr>calls := cs\<rparr>) w2)))"
proof -
  have l: "layout w2 = layout w" "devicePixelRatio w2 = devicePixelRatio w" "frames w2 = frames w"
    using ensureWrapper_fields[OF assms(1)] makeCanvas_fields[OF assms(2)] by simp_all
  have r: "getBoundingClientRect w2 (img c) = getBoundingClientRect w (img c)"
    by (simp add: getBoundingClientRect_def l)
  show ?thesis
    by (simp add: draw_def assms r l Let_def)
qed

lemma draw_doc:
  assumes "ensureWrapper (img c) w = (Inr wrap, w1)" "makeCanvas wrap w1 = (cv, w2)"
  shows "doc (snd (draw c w)) = doc w2 \<and> fresh (snd (draw c w)) = fresh w2"
  by (simp add: draw_unfold[OF assms] Let_def set_surface_def split: prod.splits)

lemma filter_wrapped:
  assumes "find (matches sel_wrap) (rev ps) = None" "ps \<noteq> []"
  shows "filter (matches sel_wrap) (wrapped i w ps) = [new_wrapper w [last ps]]"
proof -
  have none: "\<forall>x \<in> set ps. \<not> matches sel_wrap x"
    using assms(1) by (auto simp: find_None_iff)
  then have "\<not> matches sel_wrap (last ps)" using assms(2) by simp
  moreover have "filter (matches sel_wrap) (map (enclose i w) (butlast ps)) = []"
    using none by (auto simp: filter_empty_conv dest: in_set_butlastD)
  ultimately show ?thesis using assms(2) by (simp add: wrapped_def)
qed

lemma ensureWrapper_one_wrapper:
  assumes "ensureWrapper i w = (Inr wrap, w1)" "fresh w \<noteq> i" "closest sel_wrap i (doc w) = None"
  shows "length (filter (matches sel_wrap) (path i (doc w1))) = 1"
proof -
  obtain p where p: "parentNode i (doc w) = ParentElement p"
    using ensureWrapper_Inr_cases[OF assms(1)] assms(3) by auto
  have d: "doc w1 = enclose i (fresh w) (doc w)"
    using assms(1,3) p by (auto simp: ensureWrapper_def Let_def)
  have pe: "ident (doc w) \<noteq> i" "path i (doc w) \<noteq> []" using parentNode_elem[OF p] by simp_all
  have "path i (doc w1) = wrapped i (fresh w) (path i (doc w))"
    unfolding d by (rule path_enclose[OF assms(2) pe(1)])
  then show ?thesis using filter_wrapped[of "path i (doc w)"] assms(3) pe(2)
    by (simp add: closest_def)
qed

lemma filter_map_cong_len:
  "(\<And>x. P (f x) = P x) \<Longrightarrow> length (filter P (map f xs)) = length (filter P xs)"
  by (induction xs) simp_all

lemma makeCanvas_keeps_wrappers:
  assumes "makeCanvas wr w = (cv, w1)" "fresh w \<noteq> i"
  shows "length (filter (matches sel_wrap) (path i (doc w1)))
       = length (filter (matches sel_wrap) (path i (doc w)))"
proof (cases "querySelector sel_cv (node (doc w) wr)")
  case (Some c)
  then have "w1 = w" using assms(1) by (simp add: makeCanvas_def)
  then show ?thesis by simp
next
  case None
  then have d: "doc w1 = append_child wr (new_canvas (fresh w)) (doc w)"
    using assms(1) by (auto simp: makeCanvas_def)
  show ?thesis
    unfolding d path_append_child[OF path_new_canvas[OF assms(2)]]
    by (rule filter_map_cong_len) simp
qed

lemma enclose_wrappers:
  assumes "\<forall>x \<in> set (flatten d). ident x \<noteq> w"
  shows "e \<in> set (flatten (enclose i w d)) \<Longrightarrow> ident e = w
         \<Longrightarrow> \<exists>k \<in> set (flatten d). ident k = i \<and> e = new_wrapper w [k]"
  using assms
proof (induction d)
  case (Element j t a x ks)
  have jw: "j \<noteq> w" using Element.prems(3) by simp
  have "ident (enclose i w (Element j t a x ks)) = j" by simp
  then have "e \<noteq> enclose i w (Element j t a x ks)" using jw Element.prems(2) by metis
  then have "e \<in> set (concat (map flatten
      (map (\<lambda>k. if ident k = i then new_wrapper w [k] else enclose i w k) ks)))"
    using Element.prems(1) by simp
  then obtain k where
    k: "k \<in> set ks" and
    e: "e \<in> set (flatten (if ident k = i then new_wrapper w [k] else enclose i w k))"
    by auto
  have sub: "set (flatten k) \<subseteq> set (flatten (Element j t a x ks))" using k by auto
  show ?case
  proof (cases "ident k = i")
    case True
    then have "e = new_wrapper w [k] \<or> e \<in> set (flatten k)"
      using e by (simp add: new_wrapper_def)
    moreover have "e \<notin> set (flatten k)" using Element.prems(2,3) sub by blast
    moreover have "k \<in> set (flatten (Element j t a x ks))" using sub by (cases k) auto
    ultimately show ?thesis using True by blast
  next
    case False
    then have "e \<in> set (flatten (enclose i w k))" using e by simp
    moreover have "\<forall>x \<in> set (flatten k). ident x \<noteq> w" using Element.prems(3) sub by blast
    ultimately obtain k' where "k' \<in> set (flatten k)" "ident k' = i" "e = new_wrapper w [k']"
      using Element.IH[OF k] Element.prems(2) by blast
    then show ?thesis using sub by blast
  qed
qed

lemma append_child_absent:
  "\<forall>x \<in> set (flatten e). ident x \<noteq> p \<Longrightarrow> append_child p c e = e"
proof (induction e)
  case (Element j t a x ks)
  have "map (append_child p c) ks = ks"
  proof (rule map_idI)
    fix k assume k: "k \<in> set ks"
    then have "\<forall>x \<in> set (flatten k). ident x \<noteq> p" using Element.prems by auto
    from Element.IH[OF k this] show "append_child p c k = k" .
  qed
  moreover have "j \<noteq> p" using Element.prems by simp
  ultimately show ?case by simp
qed

lemma flatten_trans:
  "k \<in> set (flatten d) \<Longrightarrow> x \<in> set (flatten k) \<Longrightarrow> x \<in> set (flatten d)"
proof (induction d)
  case (Element j t a y ks)
  show ?case
  proof (cases "k = Element j t a y ks")
    case True
    then show ?thesis using Element.prems(2) by simp
  next
    case False
    then obtain k' where "k' \<in> set ks" "k \<in> set (flatten k')" using Element.prems(1) by auto
    from Element.IH[OF this Element.prems(2)] this(1) show ?thesis by auto
  qed
qed

lemma fresh_scaffold:
  assumes fu: "fresh_unused w" and par: "parentNode i (doc w) = ParentElement p"
    and nw: "closest sel_wrap i (doc w) = None"
    and nc: "\<forall>k \<in> set (flatten (doc w)). ident k = i \<longrightarrow> filter (matches sel_cv) (flatten k) = []"
  shows "\<exists>w1 w2. ensureWrapper i w = (Inr (fresh w), w1) \<and> makeCanvas (fresh w) w1 = (Suc (fresh w), w2)
     \<and> fresh w2 = fresh w + 2
     \<and> length (filter (matches sel_cv) (descendants (node (doc w2) (fresh w)))) = 1"
proof -
  let ?n = "fresh w"
  let ?w1 = "w\<lparr>fresh := Suc ?n, doc := enclose i ?n (doc w)\<rparr>"
  have ew: "ensureWrapper i w = (Inr ?n, ?w1)"
    using nw par by (simp add: ensureWrapper_def Let_def)
  have ne: "?n \<noteq> i" using fresh_not_img[OF fu par] by simp
  from ensureWrapper_twice[OF ew ne] obtain e1 where
    c1: "closest sel_wrap i (doc ?w1) = Some e1" and i1: "ident e1 = ?n" by blast
  from closest_in_doc[OF c1] obtain e1' where l1: "lookup ?n (doc ?w1) = Some e1'"
    using i1 by auto
  have unused: "\<forall>x \<in> set (flatten (doc w)). ident x \<noteq> ?n"
    using fu by (auto simp: fresh_unused_def)
  have "e1' \<in> set (flatten (enclose i ?n (doc w)))" "ident e1' = ?n"
    using l1 by (auto simp: lookup_def find_Some_iff in_set_conv_nth)
  from enclose_wrappers[OF unused this] obtain k where
    k: "k \<in> set (flatten (doc w))" "ident k = i" and e1': "e1' = new_wrapper ?n [k]" by blast
  have nok: "filter (matches sel_cv) (flatten k) = []" using nc k by blast
  have q1: "querySelector sel_cv (node (doc ?w1) ?n) = None"
    using l1 nok by (simp add: querySelector_def node_def e1' descendants_def new_wrapper_def
        find_None_iff filter_empty_conv)
  let ?cv = "new_canvas (Suc ?n)"
  let ?w2 = "?w1\<lparr>fresh := Suc (Suc ?n), doc := append_child ?n ?cv (doc ?w1)\<rparr>"
  have mc: "makeCanvas ?n ?w1 = (Suc ?n, ?w2)"
    using q1 by (simp add: makeCanvas_def)
  have "\<forall>x \<in> set (flatten k). ident x \<noteq> ?n" using unused flatten_trans[OF k(1)] by blast
  then have ak: "append_child ?n ?cv k = k" by (rule append_child_absent)
  have "lookup ?n (doc ?w2) = Some (append_child ?n ?cv e1')"
    using lookup_append_child[of ?n ?cv "doc ?w1"] l1 by simp
  then have "node (doc ?w2) ?n = Element ?n (js ''div'') [(js ''class'', js ''aioe-wrap'')] [] [k, ?cv]"
    by (simp add: node_def e1' new_wrapper_def ak)
  then have "length (filter (matches sel_cv) (descendants (node (doc ?w2) ?n))) = 1"
    using nok by (simp add: descendants_def)
  then show ?thesis using ew mc by (intro exI[of _ ?w1] exI[of _ ?w2]) simp
qed

lemma draws_fixed:
  assumes "closest sel_wrap i (doc v) = Some e"
    "querySelector sel_cv (node (doc v) (ident e)) = Some cc"
    "\<forall>c' \<in> set cs. img c' = i"
  shows "doc (draws cs v) = doc v \<and> fresh (draws cs v) = fresh v"
  using assms
proof (induction cs arbitrary: v)
  case Nil
  then show ?case by simp
next
  case (Cons c cs)
  have ic: "img c = i" using Cons.prems(3) by simp
  have "ensureWrapper (img c) v = (Inr (ident e), v)"
    using ensureWrapper_found[OF Cons.prems(1)] ic by simp
  moreover have "makeCanvas (ident e) v = (ident cc, v)"
    using makeCanvas_found[OF Cons.prems(2)] .
  ultimately have d: "doc (snd (draw c v)) = doc v \<and> fresh (snd (draw c v)) = fresh v"
    by (rule draw_doc)
  have "doc (draws cs (snd (draw c v))) = doc (snd (draw c v))
      \<and> fresh (draws cs (snd (draw c v))) = fresh (snd (draw c v))"
    by (rule Cons.IH) (use Cons.prems d in simp_all)
  then show ?case using d by simp
qed

subsection \<open>Idempotent scaffolding\<close>

text \<open>
  Claim C8. On a page whose next identity is unused, a second \<open>ensureWrapper\<close> on the
  same image returns the wrapper of the first call and leaves the page as it is; the
  first call creates at most one element, the image is inside the wrapper it returns,
  and if the image had no wrapper before it has exactly one after. A second
  \<open>makeCanvas\<close> on the same wrapper (an element of the document) returns the canvas
  of the first call and leaves the page as it is; the first call creates at most one
  element, and the canvas it returns is the one found in the wrapper.
\<close>

theorem scaffolding_idempotent:
  assumes "fresh_unused w"
  shows "(ensureWrapper i w = (Inr wrap, w1) \<longrightarrow>
            ensureWrapper i w1 = (Inr wrap, w1) \<and> fresh w1 \<le> Suc (fresh w)
            \<and> (\<exists>e. closest sel_wrap i (doc w1) = Some e \<and> ident e = wrap)
            \<and> (closest sel_wrap i (doc w) = None
                 \<longrightarrow> length (filter (matches sel_wrap) (path i (doc w1))) = 1))
       \<and> (lookup wr (doc w) = Some e' \<and> makeCanvas wr w = (cv, w2) \<longrightarrow>
            makeCanvas wr w2 = (cv, w2) \<and> fresh w2 \<le> Suc (fresh w)
            \<and> (\<exists>c. querySelector sel_cv (node (doc w2) wr) = Some c \<and> ident c = cv))"
proof (intro conjI impI)
  assume ew: "ensureWrapper i w = (Inr wrap, w1)"
  have ne: "fresh w \<noteq> i" if cn: "closest sel_wrap i (doc w) = None"
  proof -
    obtain p where "parentNode i (doc w) = ParentElement p"
      using ensureWrapper_Inr_cases[OF ew] cn by auto
    from fresh_not_img[OF assms this] show ?thesis by simp
  qed
  have tw: "ensureWrapper i w1 = (Inr wrap, w1)
      \<and> (\<exists>e. closest sel_wrap i (doc w1) = Some e \<and> ident e = wrap)"
  proof (cases "closest sel_wrap i (doc w)")
    case None
    from ensureWrapper_twice[OF ew ne[OF None]] show ?thesis .
  next
    case (Some e)
    then show ?thesis using ew by (auto simp: ensureWrapper_def)
  qed
  show "ensureWrapper i w1 = (Inr wrap, w1)" using tw by simp
  show "fresh w1 \<le> Suc (fresh w)" using ensureWrapper_fields[OF ew] by simp
  show "\<exists>e. closest sel_wrap i (doc w1) = Some e \<and> ident e = wrap" using tw by simp
  show "length (filter (matches sel_wrap) (path i (doc w1))) = 1"
    if "closest sel_wrap i (doc w) = None"
    using ensureWrapper_one_wrapper[OF ew ne[OF that] that] .
next
  assume a: "lookup wr (doc w) = Some e' \<and> makeCanvas wr w = (cv, w2)"
  then have l: "lookup wr (doc w) = Some e'" and mc: "makeCanvas wr w = (cv, w2)" by simp_all
  show "makeCanvas wr w2 = (cv, w2)" using makeCanvas_twice[OF l mc] by simp
  show "fresh w2 \<le> Suc (fresh w)" using makeCanvas_fields[OF mc] by simp
  show "\<exists>c. querySelector sel_cv (node (doc w2) wr) = Some c \<and> ident c = cv"
    using makeCanvas_twice[OF l mc] by simp
qed


lemmas ev_dom = ensureWrapper_def makeCanvas_def closest_def parentNode_def querySelector_def
  descendants_def lookup_def node_def matches_def classList_def getAttribute_def or_default_def
  sel_wrap_def sel_cv_def sel_img_def sel_root_def sel_internal_def new_wrapper_def new_canvas_def
  js_def is_ascii_ws_def Let_def

theorem scaffolding_idempotent_witness:
  "fresh_unused (blank_page one_root 2)
   \<and> ensureWrapper 1 (blank_page one_root 2) = (Inr 2, blank_page (enclose 1 2 one_root) 3)
   \<and> ensureWrapper 1 (blank_page (enclose 1 2 one_root) 3) = (Inr 2, blank_page (enclose 1 2 one_root) 3)
   \<and> makeCanvas 2 (blank_page (enclose 1 2 one_root) 3)
       = (3, blank_page (append_child 2 (new_canvas 3) (enclose 1 2 one_root)) 4)
   \<and> makeCanvas 2 (blank_page (append_child 2 (new_canvas 3) (enclose 1 2 one_root)) 4)
       = (3, blank_page (append_child 2 (new_canvas 3) (enclose 1 2 one_root)) 4)"
proof -
  have f0: "fresh_unused (blank_page one_root 2)"
    by (simp add: fresh_unused_def blank_page_def one_root_def)
  have f1: "fresh_unused (blank_page (enclose 1 2 one_root) 3)"
    by (simp add: fresh_unused_def blank_page_def one_root_def new_wrapper_def)
  have e1: "ensureWrapper 1 (blank_page one_root 2) = (Inr 2, blank_page (enclose 1 2 one_root) 3)"
    by (simp add: blank_page_def one_root_def ev_dom)
  have l1: "lookup 2 (doc (blank_page (enclose 1 2 one_root) 3))
      = Some (new_wrapper 2 [Element 1 (js ''img'') [] [] []])"
    by (simp add: blank_page_def one_root_def lookup_def new_wrapper_def)
  have m1: "makeCanvas 2 (blank_page (enclose 1 2 one_root) 3)
      = (3, blank_page (append_child 2 (new_canvas 3) (enclose 1 2 one_root)) 4)"
    by (simp add: blank_page_def one_root_def ev_dom)
  have e2: "ensureWrapper 1 (blank_page (enclose 1 2 one_root) 3)
      = (Inr 2, blank_page (enclose 1 2 one_root) 3)"
    using scaffolding_idempotent[OF f0, of 1 2 "blank_page (enclose 1 2 one_root) 3"] e1
    by blast
  have m2: "makeCanvas 2 (blank_page (append_child 2 (new_canvas 3) (enclose 1 2 one_root)) 4)
      = (3, blank_page (append_child 2 (new_canvas 3) (enclose 1 2 one_root)) 4)"
    using scaffolding_idempotent[OF f1, of 1 2 "blank_page (enclose 1 2 one_root) 3" 2
        "new_wrapper 2 [Element 1 (js ''img'') [] [] []]" 3
        "blank_page (append_child 2 (new_canvas 3) (enclose 1 2 one_root)) 4"] l1 m1
    by blast
  show ?thesis using f0 e1 e2 m1 m2 by blast
qed

subsection \<open>The scaffold after a call of draw\<close>

lemmas ev_draw = draw_def getBoundingClientRect_def blank_page_def front_closure_def
  set_surface_def surface_of_def

text \<open>
  Claim C10, as the code has it. For an image with a parent element, on a page whose
  next identity is unused: after any call of \<open>draw\<close>, whether it painted, rescheduled
  itself or threw in the paint loop, the image has a wrapper and the wrapper has an
  overlay canvas, and the call created at most two elements. A wrapper that was there
  is the one used, and the number of wrappers around the image stays what it was; a
  canvas that was there is the one used, and then the call created nothing. An image
  with no wrapper gets a new one and has exactly one after the call. If, besides,
  there is no overlay canvas inside the image element, the call creates exactly two
  elements and the wrapper holds exactly one overlay canvas. No later calls of \<open>draw\<close>
  for this image, however many, create or move any element.
\<close>

theorem draw_scaffold_once:
  assumes "fresh_unused w" "parentNode (img c) (doc w) = ParentElement p"
  shows "\<exists>e cv. closest sel_wrap (img c) (doc (snd (draw c w))) = Some e
      \<and> querySelector sel_cv (node (doc (snd (draw c w))) (ident e)) = Some cv
      \<and> fresh (snd (draw c w)) \<le> fresh w + 2
      \<and> (\<forall>e0. closest sel_wrap (img c) (doc w) = Some e0 \<longrightarrow>
            ident e = ident e0 \<and> fresh (snd (draw c w)) \<le> fresh w + 1
            \<and> length (filter (matches sel_wrap) (path (img c) (doc (snd (draw c w)))))
                = length (filter (matches sel_wrap) (path (img c) (doc w)))
            \<and> (\<forall>c0. querySelector sel_cv (node (doc w) (ident e0)) = Some c0 \<longrightarrow>
                  cv = c0 \<and> doc (snd (draw c w)) = doc w \<and> fresh (snd (draw c w)) = fresh w))
      \<and> (closest sel_wrap (img c) (doc w) = None \<longrightarrow>
            ident e = fresh w
            \<and> length (filter (matches sel_wrap) (path (img c) (doc (snd (draw c w))))) = 1)
      \<and> (closest sel_wrap (img c) (doc w) = None
           \<and> (\<forall>k \<in> set (flatten (doc w)). ident k = img c \<longrightarrow> filter (matches sel_cv) (flatten k) = [])
           \<longrightarrow> ident cv = fresh w + 1 \<and> fresh (snd (draw c w)) = fresh w + 2
             \<and> length (filter (matches sel_cv) (descendants (node (doc (snd (draw c w))) (ident e)))) = 1)
      \<and> (\<forall>cs. (\<forall>c' \<in> set cs. img c' = img c) \<longrightarrow>
             doc (draws cs (snd (draw c w))) = doc (snd (draw c w))
           \<and> fresh (draws cs (snd (draw c w))) = fresh (snd (draw c w)))"
proof -
  from scaffold[OF assms] obtain wrap w1 cv w2 e cc where
    ew: "ensureWrapper (img c) w = (Inr wrap, w1)" and mc: "makeCanvas wrap w1 = (cv, w2)" and
    cl: "closest sel_wrap (img c) (doc w2) = Some e" and ie: "ident e = wrap" and
    qs: "querySelector sel_cv (node (doc w2) wrap) = Some cc" and ic: "ident cc = cv" and
    fr: "fresh w2 \<le> fresh w + 2"
    by blast
  let ?w = "snd (draw c w)"
  have d: "doc ?w = doc w2" "fresh ?w = fresh w2" using draw_doc[OF ew mc] by simp_all
  have ne: "fresh w \<noteq> img c" using fresh_not_img[OF assms] by simp
  have ne1: "fresh w1 \<noteq> img c" using fresh_not_img[OF assms] ensureWrapper_fields[OF ew] by simp
  have found: "ident e = ident e0 \<and> fresh w2 \<le> fresh w + 1
      \<and> length (filter (matches sel_wrap) (path (img c) (doc w2)))
          = length (filter (matches sel_wrap) (path (img c) (doc w)))
      \<and> (\<forall>c0. querySelector sel_cv (node (doc w) (ident e0)) = Some c0 \<longrightarrow>
            cc = c0 \<and> doc w2 = doc w \<and> fresh w2 = fresh w)"
    if c0: "closest sel_wrap (img c) (doc w) = Some e0" for e0
  proof -
    have e0: "wrap = ident e0" "w1 = w" using ensureWrapper_found[OF c0] ew by simp_all
    have mc': "makeCanvas (ident e0) w = (cv, w2)" using mc e0 by simp
    have a: "fresh w2 \<le> fresh w + 1" using makeCanvas_fields[OF mc'] by simp
    have b: "length (filter (matches sel_wrap) (path (img c) (doc w2)))
          = length (filter (matches sel_wrap) (path (img c) (doc w)))"
      using makeCanvas_keeps_wrappers[OF mc' ne] .
    have "cc = c0 \<and> doc w2 = doc w \<and> fresh w2 = fresh w"
      if q0: "querySelector sel_cv (node (doc w) (ident e0)) = Some c0" for c0
    proof -
      have "w2 = w" using makeCanvas_found[OF q0] mc' by simp
      then show ?thesis using qs q0 e0 by simp
    qed
    then show ?thesis using a b ie e0 by blast
  qed
  have one: "ident e = fresh w \<and> length (filter (matches sel_wrap) (path (img c) (doc w2))) = 1"
    if n: "closest sel_wrap (img c) (doc w) = None"
  proof -
    have "wrap = fresh w" using ew n assms(2) by (simp add: ensureWrapper_def Let_def)
    then show ?thesis
      using ensureWrapper_one_wrapper[OF ew ne n] makeCanvas_keeps_wrappers[OF mc ne1] ie by simp
  qed
  have new: "ident cc = fresh w + 1 \<and> fresh w2 = fresh w + 2
      \<and> length (filter (matches sel_cv) (descendants (node (doc w2) (ident e)))) = 1"
    if n: "closest sel_wrap (img c) (doc w) = None"
      and nc: "\<forall>k \<in> set (flatten (doc w)). ident k = img c \<longrightarrow> filter (matches sel_cv) (flatten k) = []"
  proof -
    from fresh_scaffold[OF assms n nc] obtain v1 v2 where
      a: "ensureWrapper (img c) w = (Inr (fresh w), v1)" and
      b: "makeCanvas (fresh w) v1 = (Suc (fresh w), v2)" and
      f: "fresh v2 = fresh w + 2" and
      l: "length (filter (matches sel_cv) (descendants (node (doc v2) (fresh w)))) = 1"
      by blast
    have "wrap = fresh w" "w1 = v1" using a ew by simp_all
    then have "cv = Suc (fresh w)" "w2 = v2" using b mc by simp_all
    then show ?thesis using f l ic ie \<open>wrap = fresh w\<close> by simp
  qed
  have again: "doc (draws cs ?w) = doc ?w \<and> fresh (draws cs ?w) = fresh ?w"
    if "\<forall>c' \<in> set cs. img c' = img c" for cs
    by (rule draws_fixed[of "img c" ?w e cc]) (use cl qs ie that in \<open>simp_all add: d\<close>)
  show ?thesis
    apply (rule exI[of _ e], rule exI[of _ cc])
    unfolding d
    using cl qs ie fr found one new again[unfolded d] by blast
qed

theorem draw_scaffold_once_witness:
  "fresh_unused (blank_page one_root 2)
   \<and> parentNode (img (front_closure 1 [] (Fin 0))) (doc (blank_page one_root 2)) = ParentElement 0
   \<and> (\<exists>e cv. closest sel_wrap 1 (doc (snd (draw (front_closure 1 [] (Fin 0)) (blank_page one_root 2)))) = Some e
      \<and> querySelector sel_cv (node (doc (snd (draw (front_closure 1 [] (Fin 0)) (blank_page one_root 2)))) (ident e)) = Some cv
      \<and> ident e = 2 \<and> ident cv = 3
      \<and> fresh (snd (draw (front_closure 1 [] (Fin 0)) (blank_page one_root 2))) = 4
      \<and> length (filter (matches sel_wrap)
           (path 1 (doc (snd (draw (front_closure 1 [] (Fin 0)) (blank_page one_root 2)))))) = 1
      \<and> length (filter (matches sel_cv)
           (descendants (node (doc (snd (draw (front_closure 1 [] (Fin 0)) (blank_page one_root 2)))) (ident e)))) = 1
      \<and> doc (draws [front_closure 1 [unit_mask] (Fin 0), front_closure 1 [] (Fin 1)]
              (snd (draw (front_closure 1 [] (Fin 0)) (blank_page one_root 2))))
        = doc (snd (draw (front_closure 1 [] (Fin 0)) (blank_page one_root 2))))
   \<and> fresh_unused (blank_page scaffolded 4)
   \<and> parentNode (img (front_closure 1 [] (Fin 0))) (doc (blank_page scaffolded 4)) = ParentElement 2
   \<and> doc (snd (draw (front_closure 1 [] (Fin 0)) (blank_page scaffolded 4))) = scaffolded
   \<and> fresh (snd (draw (front_closure 1 [] (Fin 0)) (blank_page scaffolded 4))) = 4"
proof -
  let ?c = "front_closure 1 [] (Fin 0)"
  have f0: "fresh_unused (blank_page one_root 2)"
    by (simp add: fresh_unused_def blank_page_def one_root_def)
  have p0: "parentNode (img ?c) (doc (blank_page one_root 2)) = ParentElement 0"
    by (simp add: front_closure_def blank_page_def one_root_def parentNode_def)
  have n0: "closest sel_wrap (img ?c) (doc (blank_page one_root 2)) = None"
    by (simp add: front_closure_def blank_page_def one_root_def ev_dom)
  have k0: "\<forall>k \<in> set (flatten (doc (blank_page one_root 2))).
      ident k = img ?c \<longrightarrow> filter (matches sel_cv) (flatten k) = []"
    by (simp add: front_closure_def blank_page_def one_root_def ev_dom)
  have s0: "\<forall>c' \<in> set [front_closure 1 [unit_mask] (Fin 0), front_closure 1 [] (Fin 1)]. img c' = img ?c"
    by (simp add: front_closure_def)
  have i: "img ?c = 1" "fresh (blank_page one_root 2) = 2" "fresh (blank_page scaffolded 4) = 4"
    "doc (blank_page scaffolded 4) = scaffolded"
    by (simp_all add: front_closure_def blank_page_def)
  have A: "\<exists>e cv. closest sel_wrap 1 (doc (snd (draw ?c (blank_page one_root 2)))) = Some e
      \<and> querySelector sel_cv (node (doc (snd (draw ?c (blank_page one_root 2)))) (ident e)) = Some cv
      \<and> ident e = 2 \<and> ident cv = 3
      \<and> fresh (snd (draw ?c (blank_page one_root 2))) = 4
      \<and> length (filter (matches sel_wrap) (path 1 (doc (snd (draw ?c (blank_page one_root 2)))))) = 1
      \<and> length (filter (matches sel_cv)
           (descendants (node (doc (snd (draw ?c (blank_page one_root 2)))) (ident e)))) = 1
      \<and> doc (draws [front_closure 1 [unit_mask] (Fin 0), front_closure 1 [] (Fin 1)]
              (snd (draw ?c (blank_page one_root 2))))
        = doc (snd (draw ?c (blank_page one_root 2)))"
    using draw_scaffold_once[OF f0 p0] n0 k0 s0 unfolding i by fastforce
  have f1: "fresh_unused (blank_page scaffolded 4)"
    by (simp add: fresh_unused_def blank_page_def scaffolded_def)
  have p1: "parentNode (img ?c) (doc (blank_page scaffolded 4)) = ParentElement 2"
    by (simp add: front_closure_def blank_page_def scaffolded_def parentNode_def)
  have c1: "closest sel_wrap (img ?c) (doc (blank_page scaffolded 4))
      = Some (Element 2 (js ''div'') [(js ''class'', js ''aioe-wrap'')] []
        [Element 1 (js ''img'') [] [] [],
         Element 3 (js ''canvas'') [(js ''class'', js ''aioe-cv'')] [] []])"
    by (simp add: front_closure_def blank_page_def scaffolded_def ev_dom)
  have q1: "querySelector sel_cv (node (doc (blank_page scaffolded 4)) 2)
      = Some (Element 3 (js ''canvas'') [(js ''class'', js ''aioe-cv'')] [] [])"
    by (simp add: blank_page_def scaffolded_def ev_dom)
  have B: "doc (snd (draw ?c (blank_page scaffolded 4))) = scaffolded
      \<and> fresh (snd (draw ?c (blank_page scaffolded 4))) = 4"
    using draw_scaffold_once[OF f1 p1] c1 q1 unfolding i by fastforce
  show ?thesis using f0 p0 A f1 p1 B unfolding i by blast
qed

text \<open>
  Claim C10, as stated, fails on a page that carries duplicates before the call:
  \<open>draw\<close> takes the first overlay canvas of a wrapper that holds two and leaves both,
  and it takes the nearest of two nested wrappers and leaves both. The image then has
  two overlay canvases, or two wrappers, after the call.
\<close>

theorem draw_keeps_duplicates:
  "fresh_unused (blank_page two_cv 5)
   \<and> parentNode 2 two_cv = ParentElement 1
   \<and> fst (draw (front_closure 2 [] (Fin 0)) (blank_page two_cv 5)) = Inr ()
   \<and> doc (snd (draw (front_closure 2 [] (Fin 0)) (blank_page two_cv 5))) = two_cv
   \<and> map_option ident (closest sel_wrap 2 two_cv) = Some 1
   \<and> map ident (filter (matches sel_cv) (descendants (node two_cv 1))) = [3, 4]
   \<and> fresh_unused (blank_page two_wrap 4)
   \<and> parentNode 3 two_wrap = ParentElement 2
   \<and> fst (draw (front_closure 3 [] (Fin 0)) (blank_page two_wrap 4)) = Inr ()
   \<and> map ident (filter (matches sel_wrap)
        (path 3 (doc (snd (draw (front_closure 3 [] (Fin 0)) (blank_page two_wrap 4)))))) = [1, 2]"
  by (simp add: fresh_unused_def parentNode_def two_cv_def two_wrap_def ev_draw ev_dom)

subsection \<open>The renderer\<close>

lemma fl_not_NaN [simp]: "fl q \<noteq> NaN"
  by (simp add: fl_def Let_def)

lemma surface_of_set_surface [simp]: "surface_of (set_surface cv s w) cv = s"
  by (simp add: surface_of_def set_surface_def)

lemma doc_set_surface [simp]: "doc (set_surface cv s w) = doc w"
  by (simp add: set_surface_def)

lemma scaffold_overlay:
  assumes fu: "fresh_unused w" and par: "parentNode i (doc w) = ParentElement p"
  shows "\<exists>wrap w1 cv w2. ensureWrapper i w = (Inr wrap, w1) \<and> makeCanvas wrap w1 = (cv, w2)
     \<and> (\<forall>w'. doc w' = doc w2 \<longrightarrow> overlay_of w' i = Some (surface_of w' cv))"
proof (rule scaffold[OF fu par])
  fix wrap w1 cv w2 e c
  assume s: "ensureWrapper i w = (Inr wrap, w1)" "makeCanvas wrap w1 = (cv, w2)"
    "closest sel_wrap i (doc w2) = Some e" "ident e = wrap"
    "querySelector sel_cv (node (doc w2) wrap) = Some c" "ident c = cv"
  have "overlay_of w' i = Some (surface_of w' cv)" if "doc w' = doc w2" for w'
    unfolding overlay_of_def that s(3) using s(4-6) by simp
  then have "\<forall>w'. doc w' = doc w2 \<longrightarrow> overlay_of w' i = Some (surface_of w' cv)" by blast
  then have "ensureWrapper i w = (Inr wrap, w1) \<and> makeCanvas wrap w1 = (cv, w2)
     \<and> (\<forall>w'. doc w' = doc w2 \<longrightarrow> overlay_of w' i = Some (surface_of w' cv))"
    using s(1,2) by simp
  then show ?thesis by blast
qed

lemma Math_max_one:
  assumes "y \<noteq> NaN"
  shows "at_least_one (Math_max (Fin 1) y)"
  using assms by (cases y) (auto simp: not_less)

lemma Math_max_one_integral:
  assumes "integral y"
  shows "integral (Math_max (Fin 1) y)"
  using assms by (cases y) auto

lemma integral_round: "y \<noteq> NaN \<Longrightarrow> integral (Math_round y)"
  by (cases y) auto

lemma round_not_NaN: "y \<noteq> NaN \<Longrightarrow> Math_round y \<noteq> NaN"
  by (cases y) auto

lemma num_mul_pos_not_NaN:
  assumes "0 < a" "num_truthy d"
  shows "num_mul (Fin a) d \<noteq> NaN"
  using assms by (cases d) auto

lemma buffer_dim:
  assumes "2 \<le> a"
  shows "at_least_one (Math_max (Fin 1) (Math_round (num_mul (Fin a) (if num_truthy d then d else Fin 1))))
       \<and> integral (Math_max (Fin 1) (Math_round (num_mul (Fin a) (if num_truthy d then d else Fin 1))))"
proof -
  let ?d = "if num_truthy d then d else Fin 1"
  have "num_truthy ?d" by simp
  moreover have "0 < a" using assms by simp
  ultimately have n: "num_mul (Fin a) ?d \<noteq> NaN" by (rule num_mul_pos_not_NaN[rotated])
  show ?thesis
    using Math_max_one[OF round_not_NaN[OF n]] Math_max_one_integral[OF integral_round[OF n]]
    by simp
qed

lemma forEach_mask_total: "\<exists>res cs. forEach_mask sd act p r idx ms acc = (res, cs)"
  by (cases "forEach_mask sd act p r idx ms acc") auto

lemma Math_round_int: "Math_round (Fin (of_int n)) = Fin (of_int n)"
proof -
  have "\<lfloor>(of_int n :: rat) + 1 / 2\<rfloor> = n" by (simp add: floor_eq_iff)
  then show ?thesis by simp
qed

lemma Math_round_numeral: "Math_round (Fin (numeral k)) = Fin (numeral k)"
  using Math_round_int[of "numeral k"] by simp




lemma num_strict_eq_Fin [simp]: "num_strict_eq (Fin q) a = (Fin q = a)"
  by (simp add: num_strict_eq_def)




lemma laid_out_facts:
  "fresh_unused (laid_out a b d)"
  "parentNode 1 (doc (laid_out a b d)) = ParentElement 0"
  "getBoundingClientRect (laid_out a b d) 1 = \<lparr>width = a, height = b\<rparr>"
  "devicePixelRatio (laid_out a b d) = d"
  "surfaces (laid_out a b d) = []" "frames (laid_out a b d) = []"
  "parentNode (Suc 0) (doc (laid_out a b d)) = ParentElement 0"
  "getBoundingClientRect (laid_out a b d) (Suc 0) = \<lparr>width = a, height = b\<rparr>"
  by (simp_all add: laid_out_def fresh_unused_def blank_page_def one_root_def parentNode_def
      getBoundingClientRect_def)

lemma front_closure_fields:
  "img (front_closure i ms a) = i" "masks (front_closure i ms a) = ms"
  "activeIndex (front_closure i ms a) = a" "side (front_closure i ms a) = js ''front''"
  "resolve_paint (style (front_closure i ms a))
     = \<lparr>p_stroke = js ''rgba(0,0,0,0.65)'', p_fillFront = js ''rgba(40,40,40,0.85)'',
        p_fillOther = js ''rgba(255,215,0,0.35)'', p_lw = Fin 2\<rparr>"
  by (simp_all add: front_closure_def plain_style_def resolve_paint_def)

text \<open>
  Claim C2. For an image with a parent element, on a page whose next identity is
  unused: if the rectangle of the image is less than 2 wide or less than 2 high (a 0 by
  0 box in particular), \<open>draw\<close> returns without touching any surface and appends its
  own arguments to the animation-frame queue. For the box 200 by 100 with device pixel
  ratio 2 the overlay gets the CSS size 200px by 100px and the buffer 400 by 200. For
  any finite box of at least 2 by 2 the CSS size is the box and each buffer dimension
  is \<open>max(1, round(side * ratio))\<close>, an integral number that is at least 1.
\<close>

theorem draw_guard_and_sizing:
  assumes "fresh_unused w" "parentNode (img c) (doc w) = ParentElement p"
  shows
   "(num_lt (width (getBoundingClientRect w (img c))) (Fin 2)
       \<or> num_lt (height (getBoundingClientRect w (img c))) (Fin 2) \<longrightarrow>
        fst (draw c w) = Inr () \<and> surfaces (snd (draw c w)) = surfaces w
        \<and> frames (snd (draw c w)) = frames w @ [c])
    \<and> (getBoundingClientRect w (img c) = \<lparr>width = Fin 200, height = Fin 100\<rparr>
         \<and> devicePixelRatio w = Fin 2 \<longrightarrow>
        (\<exists>s. overlay_of (snd (draw c w)) (img c) = Some s
           \<and> style_width s = Some (Px (Fin 200)) \<and> style_height s = Some (Px (Fin 100))
           \<and> buffer_width s = Fin 400 \<and> buffer_height s = Fin 200))
    \<and> (\<forall>a b. getBoundingClientRect w (img c) = \<lparr>width = Fin a, height = Fin b\<rparr>
           \<and> 2 \<le> a \<and> 2 \<le> b \<longrightarrow>
        (\<exists>s. overlay_of (snd (draw c w)) (img c) = Some s
           \<and> style_width s = Some (Px (Fin a)) \<and> style_height s = Some (Px (Fin b))
           \<and> buffer_width s = Math_max (Fin 1) (Math_round (num_mul (Fin a)
                 (if num_truthy (devicePixelRatio w) then devicePixelRatio w else Fin 1)))
           \<and> buffer_height s = Math_max (Fin 1) (Math_round (num_mul (Fin b)
                 (if num_truthy (devicePixelRatio w) then devicePixelRatio w else Fin 1)))
           \<and> at_least_one (buffer_width s) \<and> integral (buffer_width s)
           \<and> at_least_one (buffer_height s) \<and> integral (buffer_height s)))"
proof -
  from scaffold_overlay[OF assms] obtain wrap w1 cv w2 where
    ew: "ensureWrapper (img c) w = (Inr wrap, w1)" and mc: "makeCanvas wrap w1 = (cv, w2)" and
    ov: "\<forall>w'. doc w' = doc w2 \<longrightarrow> overlay_of w' (img c) = Some (surface_of w' cv)"
    by blast
  note du = draw_unfold[OF ew mc]
  have sf: "surfaces w2 = surfaces w"
    using ensureWrapper_fields[OF ew] makeCanvas_fields[OF mc] by simp
  let ?r = "getBoundingClientRect w (img c)"
  let ?dpr = "if num_truthy (devicePixelRatio w) then devicePixelRatio w else Fin 1"
  have sized: "\<exists>s. overlay_of (snd (draw c w)) (img c) = Some s
      \<and> style_width s = Some (Px (Fin a)) \<and> style_height s = Some (Px (Fin b))
      \<and> buffer_width s = Math_max (Fin 1) (Math_round (num_mul (Fin a) ?dpr))
      \<and> buffer_height s = Math_max (Fin 1) (Math_round (num_mul (Fin b) ?dpr))"
    if r: "?r = \<lparr>width = Fin a, height = Fin b\<rparr>" and ab: "2 \<le> a" "2 \<le> b" for a b
  proof -
    let ?s = "(surface_of w2 cv)
                   \<lparr>style_width := Some (Px (Fin a)),
                    style_height := Some (Px (Fin b)),
                    buffer_width := Math_max (Fin 1) (Math_round (num_mul (Fin a) ?dpr)),
                    buffer_height := Math_max (Fin 1) (Math_round (num_mul (Fin b) ?dpr)),
                    calls := [SetTransform ?dpr (Fin 0) (Fin 0) ?dpr (Fin 0) (Fin 0),
                              ClearRect (Fin 0) (Fin 0) (Fin a) (Fin b)]\<rparr>"
    obtain res cs where fe: "forEach_mask (side c) (activeIndex c) (resolve_paint (style c)) ?r 0
                   (masks c) (calls ?s) = (res, cs)"
      using forEach_mask_total by blast
    have g: "\<not> (num_lt (width ?r) (Fin 2) \<or> num_lt (height ?r) (Fin 2))"
      using ab by (simp add: r)
    have d: "draw c w = (res, set_surface cv (?s\<lparr>calls := cs\<rparr>) w2)"
      unfolding du Let_def using g fe by (simp add: r)
    show ?thesis
      using ov[rule_format, of "set_surface cv (?s\<lparr>calls := cs\<rparr>) w2"] by (simp add: d)
  qed
  show ?thesis
  proof (intro conjI impI allI)
    assume "num_lt (width ?r) (Fin 2) \<or> num_lt (height ?r) (Fin 2)"
    then have d: "draw c w = (Inr (), w2\<lparr>frames := frames w @ [c]\<rparr>)"
      unfolding du Let_def by simp
    show "fst (draw c w) = Inr ()" by (simp add: d)
    show "surfaces (snd (draw c w)) = surfaces w" by (simp add: d sf)
    show "frames (snd (draw c w)) = frames w @ [c]" by (simp add: d)
  next
    assume a: "?r = \<lparr>width = Fin 200, height = Fin 100\<rparr> \<and> devicePixelRatio w = Fin 2"
    have "num_mul (Fin 200) (Fin 2) = Fin 400" "num_mul (Fin 100) (Fin 2) = Fin 200"
      by (simp_all add: fl_numeral)
    then have "Math_max (Fin 1) (Math_round (num_mul (Fin 200) (Fin 2))) = Fin 400"
      "Math_max (Fin 1) (Math_round (num_mul (Fin 100) (Fin 2))) = Fin 200"
      by (simp_all add: Math_round_numeral del: Math_round.simps)
    then show "\<exists>s. overlay_of (snd (draw c w)) (img c) = Some s
           \<and> style_width s = Some (Px (Fin 200)) \<and> style_height s = Some (Px (Fin 100))
           \<and> buffer_width s = Fin 400 \<and> buffer_height s = Fin 200"
      using sized[of 200 100] a by simp
  next
    fix a b
    assume a: "?r = \<lparr>width = Fin a, height = Fin b\<rparr> \<and> 2 \<le> a \<and> 2 \<le> b"
    then obtain s where s: "overlay_of (snd (draw c w)) (img c) = Some s"
      "style_width s = Some (Px (Fin a))" "style_height s = Some (Px (Fin b))"
      "buffer_width s = Math_max (Fin 1) (Math_round (num_mul (Fin a) ?dpr))"
      "buffer_height s = Math_max (Fin 1) (Math_round (num_mul (Fin b) ?dpr))"
      using sized[of a b] by blast
    have "at_least_one (buffer_width s) \<and> integral (buffer_width s)"
      "at_least_one (buffer_height s) \<and> integral (buffer_height s)"
      using buffer_dim[of a "devicePixelRatio w"] buffer_dim[of b "devicePixelRatio w"] a
      by (simp_all add: s)
    then show "\<exists>s. overlay_of (snd (draw c w)) (img c) = Some s
           \<and> style_width s = Some (Px (Fin a)) \<and> style_height s = Some (Px (Fin b))
           \<and> buffer_width s = Math_max (Fin 1) (Math_round (num_mul (Fin a) ?dpr))
           \<and> buffer_height s = Math_max (Fin 1) (Math_round (num_mul (Fin b) ?dpr))
           \<and> at_least_one (buffer_width s) \<and> integral (buffer_width s)
           \<and> at_least_one (buffer_height s) \<and> integral (buffer_height s)"
      using s by blast
  qed
qed

theorem draw_guard_and_sizing_witness:
  "fresh_unused (laid_out (Fin 0) (Fin 0) (Fin 1))
   \<and> parentNode (img (front_closure 1 [unit_mask] (Fin 0))) (doc (laid_out (Fin 0) (Fin 0) (Fin 1)))
        = ParentElement 0
   \<and> fst (draw (front_closure 1 [unit_mask] (Fin 0)) (laid_out (Fin 0) (Fin 0) (Fin 1))) = Inr ()
   \<and> surfaces (snd (draw (front_closure 1 [unit_mask] (Fin 0)) (laid_out (Fin 0) (Fin 0) (Fin 1)))) = []
   \<and> frames (snd (draw (front_closure 1 [unit_mask] (Fin 0)) (laid_out (Fin 0) (Fin 0) (Fin 1))))
        = [front_closure 1 [unit_mask] (Fin 0)]
   \<and> (\<exists>s. overlay_of (snd (draw (front_closure 1 [unit_mask] (Fin 0))
                               (laid_out (Fin 200) (Fin 100) (Fin 2)))) 1 = Some s
        \<and> style_width s = Some (Px (Fin 200)) \<and> style_height s = Some (Px (Fin 100))
        \<and> buffer_width s = Fin 400 \<and> buffer_height s = Fin 200
        \<and> at_least_one (buffer_width s) \<and> integral (buffer_height s))"
proof -
  let ?c = "front_closure 1 [unit_mask] (Fin 0)"
  have p: "parentNode (img ?c) (doc (laid_out a b d)) = ParentElement 0" for a b d
    by (simp add: front_closure_fields laid_out_facts)
  note A = draw_guard_and_sizing[OF laid_out_facts(1) p, of "Fin 0" "Fin 0" "Fin 1"]
  note B = draw_guard_and_sizing[OF laid_out_facts(1) p, of "Fin 200" "Fin 100" "Fin 2"]
  have a: "fst (draw ?c (laid_out (Fin 0) (Fin 0) (Fin 1))) = Inr ()
      \<and> surfaces (snd (draw ?c (laid_out (Fin 0) (Fin 0) (Fin 1)))) = []
      \<and> frames (snd (draw ?c (laid_out (Fin 0) (Fin 0) (Fin 1)))) = [?c]"
    using A[THEN conjunct1] by (simp add: front_closure_fields laid_out_facts)
  have b: "\<exists>s. overlay_of (snd (draw ?c (laid_out (Fin 200) (Fin 100) (Fin 2)))) 1 = Some s
        \<and> style_width s = Some (Px (Fin 200)) \<and> style_height s = Some (Px (Fin 100))
        \<and> buffer_width s = Fin 400 \<and> buffer_height s = Fin 200"
    using B[THEN conjunct2, THEN conjunct1] by (simp add: front_closure_fields laid_out_facts)
  have c: "\<exists>s. overlay_of (snd (draw ?c (laid_out (Fin 200) (Fin 100) (Fin 2)))) 1 = Some s
        \<and> at_least_one (buffer_width s) \<and> integral (buffer_height s)"
    using B[THEN conjunct2, THEN conjunct2, rule_format, of 200 100]
    by (auto simp add: front_closure_fields laid_out_facts)
  show ?thesis using laid_out_facts(1) p a b c by auto
qed












subsection \<open>The payload decoder\<close>

lemma JSON_parse_empty: "JSON_parse [] = Inl SyntaxError"
  by (simp add: JSON_parse_def skip_ws_def)

lemma and_then_Inr [simp]: "and_then (Inr x) f = f x"
  by (simp add: and_then_def)

lemma and_then_Inl [simp]: "and_then (Inl e) f = Inl e"
  by (simp add: and_then_def)

lemmas ev_json = JSON_parse_def skip_ws_def is_json_ws_def json_number_def json_literal_def
  is_digit_def decimal_value_def decimal_def scan_exponent_def unescape_def hex4_def hex_val_def
  trim_def is_space_def fl_zero fl_one fl_numeral fl_neg_numeral fl_half fl_one_half fl_quarter

lemmas ev_b64 = atob_def strip_padding_def b64_val_def escape_def escape_unit_def escape_keeps_def
  hex_digit_def decodeURIComponent_def is_cont_def utf16_def b64ToUtf8_def parseMasksB64_def

lemmas ev_payload = legacy_payload_def resolve_payload_def aioeParseInternalFromDom_def
  aioeParseInternal_try_def array_or_empty_def parseInt10_def truncation_def

lemma sample_script:
  "querySelector sel_internal (structured_root txt legacy)
     = Some (Element 1 (js ''script'') [(js ''class'', js ''aioe-internal'')] txt [])"
  by (simp add: structured_root_def ev_dom)

lemma parse_v1:
  "JSON_parse (trim payload_v1)
     = Inr (Obj [(js ''v'', Num (Fin 1)), (js ''masks'', Arr [inner_mask, unit_mask]),
                 (js ''active'', Num (Fin 1))])"
  by (simp add: payload_v1_def unit_mask_def inner_mask_def ev_json js_def)

lemma parse_plain:
  "JSON_parse (trim payload_plain) = Inr (Obj [(js ''v'', Num (Fin (5 / 2))), (js ''masks'', Arr [])])"
  by (simp add: payload_plain_def ev_json js_def)

lemma parse_v0:
  "JSON_parse (trim payload_v0) = Inr (Obj [(js ''v'', Num (Fin 0)), (js ''masks'', Arr [])])"
  by (simp add: payload_v0_def ev_json js_def)

lemma parse_no_masks:
  "JSON_parse (trim payload_no_masks) = Inr (Obj [(js ''v'', Num (Fin 1))])"
  by (simp add: payload_no_masks_def ev_json js_def)

lemma parse_big_version:
  "JSON_parse (trim payload_big_version)
     = Inr (Obj [(js ''v'', Num (Fin 4294967296)), (js ''masks'', Arr [unit_mask])])"
  by (simp add: payload_big_version_def unit_mask_def ev_json js_def)

lemma parse_active_object:
  "JSON_parse (trim payload_active_object)
     = Inr (Obj [(js ''v'', Num (Fin 1)), (js ''masks'', Arr []),
                 (js ''active'', Obj [(js ''toString'', Num (Fin 1))])])"
  by (simp add: payload_active_object_def ev_json js_def)

lemma parse_negative_version:
  "JSON_parse (trim payload_negative_version)
     = Inr (Obj [(js ''v'', Num (Fin (- 4294967295))), (js ''masks'', Arr [])])"
  by (simp add: payload_negative_version_def ev_json js_def)

lemma legacy_sample:
  "legacy_payload (structured_root txt legacy_attrs) = Inr (Fin 1, [unit_mask])"
  by (simp add: structured_root_def legacy_attrs_def unit_mask_def ev_payload ev_b64 ev_json ev_dom)

lemma encode_round_trip_text:
  "b64_encode (utf8_encode round_trip_text)
     = js ''eyJ2IjoxLCJtYXNrcyI6W3sieCI6MC4xLCJ5IjowLjIsInciOjAuMywiaCI6MC40fV19''"
  by (simp add: round_trip_text_def utf8_encode_def utf8_unit_def b64_char_def js_def)

lemmas ev_json_frac = JSON_parse_def skip_ws_def is_json_ws_def json_number_def json_literal_def
  is_digit_def decimal_value_def decimal_def scan_exponent_def unescape_def hex4_def hex_val_def
  trim_def is_space_def fl_zero fl_one

text \<open>
  Claim C3, as the code has it. A structured payload whose text parses to an object is
  accepted when the 32-bit integer \<open>v | 0\<close> of its version is at least 1, its \<open>masks\<close>
  field is an array and the conversion of its \<open>active\<close> field to a number does not throw.
  The decoder then returns exactly the elements of \<open>masks\<close>, in their order, and as
  \<open>active\<close> the number that the \<open>active\<close> field converts to, or 0 when that is not
  finite or the field is absent; the resolver takes \<open>active | 0\<close> and these masks.
\<close>

theorem structured_payload_accepted:
  assumes "querySelector sel_internal rt = Some el"
    and "JSON_parse (trim (textContent el)) = Inr obj"
    and "typeof_object obj" "obj \<noteq> Null"
    and "and_then (get obj (js ''v'')) ToNumber = Inr v" "1 \<le> ToInt32 v"
    and "get obj (js ''masks'') = Inr (Arr ms)"
    and "and_then (get obj (js ''active'')) ToNumber = Inr a"
  shows "aioeParseInternalFromDom rt
           = Some \<lparr>internal_masks = Arr ms, internal_active = (if isFinite a then a else Fin 0)\<rparr>
       \<and> resolve_payload rt = Inr (Fin (of_int (ToInt32 (if isFinite a then a else Fin 0))), ms)
       \<and> (get obj (js ''active'') = Inr Undefined \<longrightarrow>
            aioeParseInternalFromDom rt = Some \<lparr>internal_masks = Arr ms, internal_active = Fin 0\<rparr>)"
proof -
  have ne: "trim (textContent el) \<noteq> []"
    using assms(2) JSON_parse_empty by auto
  have t: "truthy obj" using assms(3,4) by (cases obj) auto
  have tr: "aioeParseInternal_try rt
      = Inr (Some \<lparr>internal_masks = Arr ms, internal_active = (if isFinite a then a else Fin 0)\<rparr>)"
    using assms ne t by (simp add: aioeParseInternal_try_def Let_def)
  then have p: "aioeParseInternalFromDom rt
      = Some \<lparr>internal_masks = Arr ms, internal_active = (if isFinite a then a else Fin 0)\<rparr>"
    by (simp add: aioeParseInternalFromDom_def)
  have r: "resolve_payload rt = Inr (Fin (of_int (ToInt32 (if isFinite a then a else Fin 0))), ms)"
    by (simp add: resolve_payload_def p array_or_empty_def)
  have u: "a = NaN" if "get obj (js ''active'') = Inr Undefined"
    using assms(8) that by simp
  show ?thesis using p r u by auto
qed

theorem structured_payload_accepted_witness:
  "aioeParseInternalFromDom (structured_root payload_v1 [])
     = Some \<lparr>internal_masks = Arr [inner_mask, unit_mask], internal_active = Fin 1\<rparr>
   \<and> resolve_payload (structured_root payload_v1 []) = Inr (Fin 1, [inner_mask, unit_mask])
   \<and> aioeParseInternalFromDom (structured_root payload_plain legacy_attrs)
     = Some \<lparr>internal_masks = Arr [], internal_active = Fin 0\<rparr>
   \<and> resolve_payload (structured_root payload_plain legacy_attrs) = Inr (Fin 0, [])"
proof -
  let ?o1 = "Obj [(js ''v'', Num (Fin 1)), (js ''masks'', Arr [inner_mask, unit_mask]),
                  (js ''active'', Num (Fin 1))]"
  let ?o2 = "Obj [(js ''v'', Num (Fin (5 / 2))), (js ''masks'', Arr [])]"
  have a1: "typeof_object ?o1" "?o1 \<noteq> Null"
    "and_then (get ?o1 (js ''v'')) ToNumber = Inr (Fin 1)" "1 \<le> ToInt32 (Fin 1)"
    "get ?o1 (js ''masks'') = Inr (Arr [inner_mask, unit_mask])"
    "and_then (get ?o1 (js ''active'')) ToNumber = Inr (Fin 1)"
    by (simp_all add: js_def truncation_def)
  have t2: "\<lfloor>5 / 2 :: rat\<rfloor> = 2" by (simp add: floor_eq_iff)
  have a2: "typeof_object ?o2" "?o2 \<noteq> Null"
    "and_then (get ?o2 (js ''v'')) ToNumber = Inr (Fin (5 / 2))" "1 \<le> ToInt32 (Fin (5 / 2))"
    "get ?o2 (js ''masks'') = Inr (Arr [])"
    "and_then (get ?o2 (js ''active'')) ToNumber = Inr NaN"
    "get ?o2 (js ''active'') = Inr Undefined"
    by (simp_all add: js_def truncation_def t2)
  have A: "aioeParseInternalFromDom (structured_root payload_v1 [])
     = Some \<lparr>internal_masks = Arr [inner_mask, unit_mask], internal_active = Fin 1\<rparr>
   \<and> resolve_payload (structured_root payload_v1 []) = Inr (Fin 1, [inner_mask, unit_mask])"
    using structured_payload_accepted[OF sample_script _ a1(1-6), of payload_v1 "[]"] parse_v1
    by (simp add: truncation_def)
  have B: "aioeParseInternalFromDom (structured_root payload_plain legacy_attrs)
     = Some \<lparr>internal_masks = Arr [], internal_active = Fin 0\<rparr>
   \<and> resolve_payload (structured_root payload_plain legacy_attrs) = Inr (Fin 0, [])"
    using structured_payload_accepted[OF sample_script _ a2(1-6), of payload_plain legacy_attrs]
      parse_plain a2(7)
    by (simp add: truncation_def)
  show ?thesis using A B by blast
qed

text \<open>
  Claim C3, as stated, fails: the version 4294967296 is an integer that is at least 1,
  but \<open>v | 0\<close> wraps it to 0 and the decoder returns \<open>null\<close>, so the mask of the payload is
  lost; and a payload with version 1 and an array of masks is rejected when its
  \<open>active\<close> field is an object with an own \<open>toString\<close> property, whose conversion to a
  number throws.
\<close>

theorem structured_payload_version_wraps:
  "JSON_parse (trim payload_big_version)
     = Inr (Obj [(js ''v'', Num (Fin 4294967296)), (js ''masks'', Arr [unit_mask])])
   \<and> aioeParseInternalFromDom (structured_root payload_big_version []) = None
   \<and> resolve_payload (structured_root payload_big_version []) = Inr (Fin 0, [])
   \<and> JSON_parse (trim payload_active_object)
     = Inr (Obj [(js ''v'', Num (Fin 1)), (js ''masks'', Arr []),
                 (js ''active'', Obj [(js ''toString'', Num (Fin 1))])])
   \<and> aioeParseInternalFromDom (structured_root payload_active_object []) = None"
proof -
  have a: "aioeParseInternalFromDom (structured_root payload_big_version []) = None"
    using parse_big_version JSON_parse_empty
    by (cases "trim payload_big_version = []")
       (simp_all add: aioeParseInternalFromDom_def aioeParseInternal_try_def sample_script
          Let_def js_def truncation_def)
  have b: "resolve_payload (structured_root payload_big_version []) = Inr (Fin 0, [])"
    by (simp add: resolve_payload_def a)
       (simp add: structured_root_def ev_payload ev_b64 ev_json ev_dom)
  have c: "aioeParseInternalFromDom (structured_root payload_active_object []) = None"
    using parse_active_object JSON_parse_empty
    by (cases "trim payload_active_object = []")
       (simp_all add: aioeParseInternalFromDom_def aioeParseInternal_try_def sample_script
          Let_def js_def truncation_def)
  show ?thesis using a b c parse_big_version parse_active_object by simp
qed

text \<open>
  Claim C4, as the code has it. A structured payload whose text parses is treated as
  absent when the 32-bit integer \<open>v | 0\<close> of its version is less than 1 (or the version
  cannot be converted), or when its \<open>masks\<close> field is missing or not an array. The
  decoder raises nothing, and the resolver does what the legacy source does: \<open>active\<close>
  is \<open>parseInt\<close> of \<open>data-active\<close> (0 when absent, unreadable or zero) and the masks are
  the \<open>masks\<close> array of the value decoded from \<open>data-masks-b64\<close>, or empty when that
  text does not parse or holds no array.
\<close>

theorem structured_payload_rejected:
  assumes "querySelector sel_internal rt = Some el"
    and "JSON_parse (trim (textContent el)) = Inr obj"
    and "(\<forall>v. and_then (get obj (js ''v'')) ToNumber = Inr v \<longrightarrow> ToInt32 v < 1)
         \<or> (\<forall>ms. get obj (js ''masks'') \<noteq> Inr (Arr ms))"
  shows "aioeParseInternalFromDom rt = None \<and> resolve_payload rt = legacy_payload rt
     \<and> (\<forall>p m. JSON_parse (b64ToUtf8 (or_default (getAttribute rt (js ''data-masks-b64'')) [])) = Inr p
              \<and> get p (js ''masks'') = Inr m \<longrightarrow>
            resolve_payload rt =
              Inr (if num_truthy (parseInt10 (or_default (getAttribute rt (js ''data-active'')) (js ''0'')))
                   then parseInt10 (or_default (getAttribute rt (js ''data-active'')) (js ''0''))
                   else Fin 0,
                   case m of Arr xs \<Rightarrow> xs | _ \<Rightarrow> []))
     \<and> (\<forall>e. JSON_parse (b64ToUtf8 (or_default (getAttribute rt (js ''data-masks-b64'')) [])) = Inl e \<longrightarrow>
            resolve_payload rt =
              Inr (if num_truthy (parseInt10 (or_default (getAttribute rt (js ''data-active'')) (js ''0'')))
                   then parseInt10 (or_default (getAttribute rt (js ''data-active'')) (js ''0''))
                   else Fin 0, []))"
proof -
  have na: "\<not> isArray m" if "get obj (js ''masks'') = Inr m" "\<forall>ms. get obj (js ''masks'') \<noteq> Inr (Arr ms)" for m
    using that by (cases m) auto
  have "aioeParseInternal_try rt = Inr None \<or> (\<exists>e. aioeParseInternal_try rt = Inl e)"
  proof (cases "trim (textContent el) = [] \<or> \<not> truthy obj \<or> \<not> typeof_object obj")
    case True
    then show ?thesis using assms(1,2) by (auto simp: aioeParseInternal_try_def Let_def)
  next
    case False
    show ?thesis
    proof (cases "and_then (get obj (js ''v'')) ToNumber")
      case (Inl e)
      then show ?thesis using assms(1,2) False by (simp add: aioeParseInternal_try_def Let_def)
    next
      case (Inr v)
      show ?thesis
      proof (cases "ToInt32 v < 1")
        case True
        then show ?thesis using assms(1,2) False Inr by (simp add: aioeParseInternal_try_def Let_def)
      next
        case v1: False
        then have nm: "\<forall>ms. get obj (js ''masks'') \<noteq> Inr (Arr ms)" using assms(3) Inr by auto
        show ?thesis
        proof (cases "get obj (js ''masks'')")
          case (Inl e)
          then show ?thesis using assms(1,2) False Inr v1
            by (simp add: aioeParseInternal_try_def Let_def)
        next
          case m: (Inr m)
          show ?thesis
            using assms(1,2) False Inr v1 m na[OF m nm]
            by (cases "and_then (get obj (js ''active'')) ToNumber")
               (simp_all add: aioeParseInternal_try_def Let_def)
        qed
      qed
    qed
  qed
  then have n: "aioeParseInternalFromDom rt = None"
    by (auto simp: aioeParseInternalFromDom_def)
  then have r: "resolve_payload rt = legacy_payload rt" by (simp add: resolve_payload_def)
  show ?thesis
    unfolding r using n
    by (auto simp: legacy_payload_def parseMasksB64_def array_or_empty_def Let_def js_def)
qed

theorem structured_payload_rejected_witness:
  "aioeParseInternalFromDom (structured_root payload_v0 legacy_attrs) = None
   \<and> resolve_payload (structured_root payload_v0 legacy_attrs) = Inr (Fin 1, [unit_mask])
   \<and> aioeParseInternalFromDom (structured_root payload_no_masks legacy_attrs) = None
   \<and> resolve_payload (structured_root payload_no_masks legacy_attrs) = Inr (Fin 1, [unit_mask])"
proof -
  let ?o0 = "Obj [(js ''v'', Num (Fin 0)), (js ''masks'', Arr [])]"
  let ?o1 = "Obj [(js ''v'', Num (Fin 1))]"
  have h0: "(\<forall>v. and_then (get ?o0 (js ''v'')) ToNumber = Inr v \<longrightarrow> ToInt32 v < 1)
         \<or> (\<forall>ms. get ?o0 (js ''masks'') \<noteq> Inr (Arr ms))"
    by (auto simp: js_def truncation_def)
  have h1: "(\<forall>v. and_then (get ?o1 (js ''v'')) ToNumber = Inr v \<longrightarrow> ToInt32 v < 1)
         \<or> (\<forall>ms. get ?o1 (js ''masks'') \<noteq> Inr (Arr ms))"
    by (auto simp: js_def)
  have A: "aioeParseInternalFromDom (structured_root payload_v0 legacy_attrs) = None
      \<and> resolve_payload (structured_root payload_v0 legacy_attrs)
          = legacy_payload (structured_root payload_v0 legacy_attrs)"
    using structured_payload_rejected[OF sample_script _ h0, of payload_v0 legacy_attrs] parse_v0
    by simp
  have B: "aioeParseInternalFromDom (structured_root payload_no_masks legacy_attrs) = None
      \<and> resolve_payload (structured_root payload_no_masks legacy_attrs)
          = legacy_payload (structured_root payload_no_masks legacy_attrs)"
    using structured_payload_rejected[OF sample_script _ h1, of payload_no_masks legacy_attrs]
      parse_no_masks
    by simp
  show ?thesis using A B by (simp add: legacy_sample)
qed

text \<open>
  Claim C4, as stated, fails: the version -4294967295 is less than 1, but \<open>v | 0\<close>
  wraps it to 1 and the payload is accepted, so the resolver takes the empty masks and
  the active index 0 of the payload and not the mask and the index 1 of the legacy
  attributes.
\<close>

theorem structured_payload_negative_version:
  "JSON_parse (trim payload_negative_version)
     = Inr (Obj [(js ''v'', Num (Fin (- 4294967295))), (js ''masks'', Arr [])])
   \<and> aioeParseInternalFromDom (structured_root payload_negative_version legacy_attrs)
     = Some \<lparr>internal_masks = Arr [], internal_active = Fin 0\<rparr>
   \<and> resolve_payload (structured_root payload_negative_version legacy_attrs) = Inr (Fin 0, [])
   \<and> legacy_payload (structured_root payload_negative_version legacy_attrs) = Inr (Fin 1, [unit_mask])"
proof -
  have a: "aioeParseInternalFromDom (structured_root payload_negative_version legacy_attrs)
     = Some \<lparr>internal_masks = Arr [], internal_active = Fin 0\<rparr>"
    using parse_negative_version JSON_parse_empty
    by (cases "trim payload_negative_version = []")
       (simp_all add: aioeParseInternalFromDom_def aioeParseInternal_try_def sample_script
          Let_def js_def truncation_def)
  have b: "resolve_payload (structured_root payload_negative_version legacy_attrs) = Inr (Fin 0, [])"
    by (simp add: resolve_payload_def a array_or_empty_def truncation_def)
  show ?thesis using a b parse_negative_version legacy_sample by simp
qed

text \<open>
  Claim C6. The text \<open>{"v":1,"masks":[{"x":0.1,"y":0.2,"w":0.3,"h":0.4}]}\<close>, encoded as
  UTF-8 and then as base64, decodes on the legacy path (\<open>b64ToUtf8\<close>, \<open>JSON.parse\<close>,
  the \<open>masks\<close> field) to exactly the one mask of the object, whose fields are the
  doubles nearest to 0.1, 0.2, 0.3 and 0.4.
\<close>

theorem legacy_round_trip:
  "b64_encode (utf8_encode round_trip_text)
     = js ''eyJ2IjoxLCJtYXNrcyI6W3sieCI6MC4xLCJ5IjowLjIsInciOjAuMywiaCI6MC40fV19''
   \<and> b64ToUtf8 (b64_encode (utf8_encode round_trip_text)) = round_trip_text
   \<and> parseMasksB64 (b64_encode (utf8_encode round_trip_text))
     = Obj [(js ''v'', Num (Fin 1)), (js ''masks'', Arr [round_trip_mask])]
   \<and> legacy_payload (legacy_root
         [(js ''data-masks-b64'', b64_encode (utf8_encode round_trip_text))])
     = Inr (Fin 0, [round_trip_mask])
   \<and> resolve_payload (legacy_root
         [(js ''data-masks-b64'', b64_encode (utf8_encode round_trip_text))])
     = Inr (Fin 0, [round_trip_mask])"
proof -
  have t: "b64ToUtf8 (js ''eyJ2IjoxLCJtYXNrcyI6W3sieCI6MC4xLCJ5IjowLjIsInciOjAuMywiaCI6MC40fV19'')
      = round_trip_text"
    by (simp add: round_trip_text_def ev_b64 is_ascii_ws_def hex_val_def js_def)
  have p: "JSON_parse round_trip_text
      = Inr (Obj [(js ''v'', Num (Fin 1)), (js ''masks'', Arr [round_trip_mask])])"
    by (simp add: round_trip_text_def round_trip_mask_def ev_json_frac js_def)
  have m: "parseMasksB64 (js ''eyJ2IjoxLCJtYXNrcyI6W3sieCI6MC4xLCJ5IjowLjIsInciOjAuMywiaCI6MC40fV19'')
      = Obj [(js ''v'', Num (Fin 1)), (js ''masks'', Arr [round_trip_mask])]"
    by (simp add: parseMasksB64_def t p)
  have g: "get (Obj [(js ''v'', Num (Fin 1)), (js ''masks'', Arr [round_trip_mask])]) (js ''masks'')
      = Inr (Arr [round_trip_mask])"
    by (simp add: js_def)
  have a: "parseInt10 (js ''0'') = Fin 0" by (simp add: ev_parseInt fl_zero)
  have l: "legacy_payload (legacy_root [(js ''data-masks-b64'',
        js ''eyJ2IjoxLCJtYXNrcyI6W3sieCI6MC4xLCJ5IjowLjIsInciOjAuMywiaCI6MC40fV19'')])
      = Inr (Fin 0, [round_trip_mask])"
    by (simp add: legacy_payload_def legacy_root_def getAttribute_def or_default_def
        a m g array_or_empty_def js_inj)
  have n: "aioeParseInternalFromDom (legacy_root legacy) = None" for legacy
    by (simp add: aioeParseInternalFromDom_def aioeParseInternal_try_def legacy_root_def ev_dom)
  show ?thesis
    unfolding encode_round_trip_text using t m l by (simp add: resolve_payload_def n)
qed

text \<open>
  Claim C5 at the attribute \<open>data-masks-b64="bnVsbA=="\<close>, the base64 text of the JSON
  text \<open>null\<close>: every step of the decoding succeeds, \<open>parseMasksB64\<close> returns \<open>null\<close>, and
  reading \<open>parsed.masks\<close> in \<open>initOne\<close> (line 116) throws a TypeError that reaches the
  caller of \<open>initOne\<close>. The structured decoder guards the same case (\<open>!obj\<close>, line 17).
\<close>

theorem legacy_null_throws:
  "atob (js ''bnVsbA=='') = Inr (js ''null'')
   \<and> b64ToUtf8 (js ''bnVsbA=='') = js ''null''
   \<and> parseMasksB64 (js ''bnVsbA=='') = Null
   \<and> legacy_payload (legacy_root [(js ''data-masks-b64'', js ''bnVsbA=='')]) = Inl TypeError
   \<and> resolve_payload (legacy_root [(js ''data-masks-b64'', js ''bnVsbA=='')]) = Inl TypeError
   \<and> initOne 0 (blank_page (legacy_root [(js ''data-masks-b64'', js ''bnVsbA=='')]) 2)
     = (Inl TypeError, blank_page (legacy_root [(js ''data-masks-b64'', js ''bnVsbA=='')]) 2)"
proof -
  have a: "atob (js ''bnVsbA=='') = Inr (js ''null'')"
    by (simp add: ev_b64 is_ascii_ws_def hex_val_def js_def)
  have t: "b64ToUtf8 (js ''bnVsbA=='') = js ''null''"
    by (simp add: ev_b64 is_ascii_ws_def hex_val_def js_def)
  have p: "JSON_parse (js ''null'') = Inr Null"
    by (simp add: ev_json js_def)
  have m: "parseMasksB64 (js ''bnVsbA=='') = Null"
    by (simp add: parseMasksB64_def t p)
  have l: "legacy_payload (legacy_root [(js ''data-masks-b64'', js ''bnVsbA=='')]) = Inl TypeError"
    by (simp add: legacy_payload_def legacy_root_def getAttribute_def or_default_def m Let_def)
  have n: "aioeParseInternalFromDom (legacy_root legacy) = None" for legacy
    by (simp add: aioeParseInternalFromDom_def aioeParseInternal_try_def legacy_root_def ev_dom)
  have r: "resolve_payload (legacy_root [(js ''data-masks-b64'', js ''bnVsbA=='')]) = Inl TypeError"
    by (simp add: resolve_payload_def n l)
  have d: "node (doc (blank_page (legacy_root legacy) 2)) 0 = legacy_root legacy" for legacy
    by (simp add: node_def lookup_def blank_page_def legacy_root_def)
  have i: "initOne 0 (blank_page (legacy_root [(js ''data-masks-b64'', js ''bnVsbA=='')]) 2)
     = (Inl TypeError, blank_page (legacy_root [(js ''data-masks-b64'', js ''bnVsbA=='')]) 2)"
    by (simp add: initOne_def d r Let_def)
  show ?thesis using a t m l r i by simp
qed

end
